theory Spec2Isabelle
  imports Complex_Main
begin

section \<open>JavaScript numbers\<close>

text \<open>
  A JavaScript number is not-a-number, an infinity or a finite value. The finite values
  of the language are the binary64 doubles; the model keeps them as reals and makes the
  rounding explicit: every arithmetic operation on two finite numbers computes the exact
  real result and hands it to a rounding, a function from that result to the number the
  operation returns. Two roundings are defined below: \<open>exact\<close>, which keeps the real
  result (arithmetic without rounding or overflow), and \<open>round64\<close>, the rounding of
  binary64 to the nearest double, ties to even, with overflow to an infinity. The sign of
  zero is not modelled.

  The fields of the parameter objects are finite numbers (type \<open>real\<close>); optional
  fields (read with \<open>??\<close>) are \<open>real option\<close>. What the code computes
  from the fields alone before any loop (the clamps, the periodic rate, the deposit, the
  period and month counts) is kept exact; every operation on a computed number goes
  through the rounding.
\<close>

datatype jsnum = NaN | Fin real | PInf | NInf

type_synonym rounding = "real \<Rightarrow> jsnum"

text \<open>Exact arithmetic: the rounding that keeps the real result.\<close>

abbreviation (input) exact :: rounding where
  "exact \<equiv> Fin"

fun jneg :: "jsnum \<Rightarrow> jsnum" where
  "jneg NaN = NaN"
| "jneg (Fin a) = Fin (- a)"
| "jneg PInf = NInf"
| "jneg NInf = PInf"

fun jadd :: "rounding \<Rightarrow> jsnum \<Rightarrow> jsnum \<Rightarrow> jsnum" where
  "jadd rnd (Fin a) (Fin b) = rnd (a + b)"
| "jadd rnd NaN y = NaN"
| "jadd rnd x NaN = NaN"
| "jadd rnd PInf NInf = NaN"
| "jadd rnd NInf PInf = NaN"
| "jadd rnd PInf y = PInf"
| "jadd rnd x PInf = PInf"
| "jadd rnd NInf y = NInf"
| "jadd rnd x NInf = NInf"

definition jsub :: "rounding \<Rightarrow> jsnum \<Rightarrow> jsnum \<Rightarrow> jsnum" where
  "jsub rnd x y = jadd rnd x (jneg y)"

text \<open>The sign of a product with an infinity; zero times infinity is not a number.\<close>

definition inf_signed :: "real \<Rightarrow> jsnum" where
  "inf_signed s = (if s = 0 then NaN else if 0 < s then PInf else NInf)"

fun jmul :: "rounding \<Rightarrow> jsnum \<Rightarrow> jsnum \<Rightarrow> jsnum" where
  "jmul rnd (Fin a) (Fin b) = rnd (a * b)"
| "jmul rnd NaN y = NaN"
| "jmul rnd x NaN = NaN"
| "jmul rnd PInf (Fin b) = inf_signed b"
| "jmul rnd NInf (Fin b) = inf_signed (- b)"
| "jmul rnd (Fin a) PInf = inf_signed a"
| "jmul rnd (Fin a) NInf = inf_signed (- a)"
| "jmul rnd PInf PInf = PInf"
| "jmul rnd NInf NInf = PInf"
| "jmul rnd PInf NInf = NInf"
| "jmul rnd NInf PInf = NInf"

text \<open>Division; a zero divisor is the positive zero (the sign of zero is not modelled).\<close>

fun jdiv :: "rounding \<Rightarrow> jsnum \<Rightarrow> jsnum \<Rightarrow> jsnum" where
  "jdiv rnd (Fin a) (Fin b) = (if b = 0 then inf_signed a else rnd (a / b))"
| "jdiv rnd NaN y = NaN"
| "jdiv rnd x NaN = NaN"
| "jdiv rnd (Fin a) PInf = Fin 0"
| "jdiv rnd (Fin a) NInf = Fin 0"
| "jdiv rnd PInf (Fin b) = (if b < 0 then NInf else PInf)"
| "jdiv rnd NInf (Fin b) = (if b < 0 then PInf else NInf)"
| "jdiv rnd PInf PInf = NaN"
| "jdiv rnd PInf NInf = NaN"
| "jdiv rnd NInf PInf = NaN"
| "jdiv rnd NInf NInf = NaN"

text \<open>The comparison \<open>x < y\<close>: false as soon as one side is not a number.\<close>

fun jlt :: "jsnum \<Rightarrow> jsnum \<Rightarrow> bool" where
  "jlt (Fin a) (Fin b) = (a < b)"
| "jlt NaN y = False"
| "jlt x NaN = False"
| "jlt NInf NInf = False"
| "jlt NInf y = True"
| "jlt x NInf = False"
| "jlt PInf y = False"
| "jlt x PInf = True"

definition jgt :: "jsnum \<Rightarrow> jsnum \<Rightarrow> bool" where
  "jgt x y = jlt y x"

text \<open>The comparison \<open>x <= y\<close>.\<close>

definition jle :: "jsnum \<Rightarrow> jsnum \<Rightarrow> bool" where
  "jle x y = (x \<noteq> NaN \<and> y \<noteq> NaN \<and> \<not> jlt y x)"

text \<open>\<open>Math.max\<close> of two numbers: not a number as soon as one argument is.\<close>

definition jmax :: "jsnum \<Rightarrow> jsnum \<Rightarrow> jsnum" where
  "jmax x y = (if x = NaN \<or> y = NaN then NaN else if jlt x y then y else x)"

text \<open>
  \<open>Math.pow\<close> on finite arguments: any base to the power 0 is 1; a negative base has a
  power only for an integral exponent; zero to a negative power is infinite. The power
  is rounded like the result of any other operation.
\<close>

definition js_pow :: "rounding \<Rightarrow> real \<Rightarrow> real \<Rightarrow> jsnum" where
  "js_pow rnd x y =
     (if y = 0 then Fin 1
      else if 0 < x then rnd (x powr y)
      else if x = 0 then (if 0 < y then Fin 0 else PInf)
      else if of_int \<lfloor>y\<rfloor> = y then rnd (x powi \<lfloor>y\<rfloor>)
      else NaN)"

text \<open>\<open>Math.pow\<close> of any base to a finite exponent.\<close>

fun jpow :: "rounding \<Rightarrow> jsnum \<Rightarrow> real \<Rightarrow> jsnum" where
  "jpow rnd (Fin x) y = js_pow rnd x y"
| "jpow rnd NaN y = (if y = 0 then Fin 1 else NaN)"
| "jpow rnd PInf y = (if y = 0 then Fin 1 else if 0 < y then PInf else Fin 0)"
| "jpow rnd NInf y =
     (if y = 0 then Fin 1
      else if y < 0 then Fin 0
      else if of_int \<lfloor>y\<rfloor> = y \<and> odd \<lfloor>y\<rfloor> then NInf
      else PInf)"

text \<open>\<open>Math.round\<close> on a finite argument: the nearest integer, a half rounded up.\<close>

definition js_round :: "real \<Rightarrow> int" where
  "js_round x = \<lfloor>x + 1 / 2\<rfloor>"

text \<open>The operator \<open>??\<close> on an optional field: the default where the field is absent.\<close>

fun nullish :: "'a option \<Rightarrow> 'a \<Rightarrow> 'a" where
  "nullish None d = d"
| "nullish (Some v) d = v"

section \<open>The rounding of binary64\<close>

text \<open>The nearest integer, a tie going to the even neighbour.\<close>

definition rne :: "real \<Rightarrow> int" where
  "rne q =
     (let f = \<lfloor>q\<rfloor>; d = q - of_int f
      in if d < 1 / 2 then f
         else if 1 / 2 < d then f + 1
         else if even f then f
         else f + 1)"

text \<open>
  The binary exponent of a number other than 0, at least \<open>-1022\<close> (below it the doubles
  are subnormal and equally spaced), and the distance between neighbouring doubles at
  that exponent, for a significand of 53 bits.
\<close>

definition expo64 :: "real \<Rightarrow> int" where
  "expo64 x = max \<lfloor>log 2 \<bar>x\<bar>\<rfloor> (- 1022)"

definition ulp64 :: "real \<Rightarrow> real" where
  "ulp64 x = 2 powr (of_int (expo64 x) - 52)"

text \<open>
  Round to the nearest multiple of that distance; a result of magnitude \<open>2 ^ 1024\<close> or
  more is an infinity.
\<close>

definition nearest64 :: "real \<Rightarrow> real" where
  "nearest64 x = of_int (rne (x / ulp64 x)) * ulp64 x"

definition round64 :: rounding where
  "round64 x =
     (if x = 0 then Fin 0
      else if 2 ^ 1024 \<le> nearest64 x then PInf
      else if nearest64 x \<le> - (2 ^ 1024) then NInf
      else Fin (nearest64 x))"

text \<open>
  What the properties below need of a rounding: it keeps 0, never gives not-a-number,
  is monotone, and gives numbers that it leaves unchanged. A number is representable
  when the rounding leaves it unchanged.
\<close>

definition is_rounding :: "rounding \<Rightarrow> bool" where
  "is_rounding rnd \<longleftrightarrow>
     rnd 0 = Fin 0 \<and> (\<forall>x. rnd x \<noteq> NaN) \<and>
     (\<forall>x y. x \<le> y \<longrightarrow> jle (rnd x) (rnd y)) \<and>
     (\<forall>x y. rnd x = Fin y \<longrightarrow> rnd y = Fin y)"

definition representable :: "rounding \<Rightarrow> real \<Rightarrow> bool" where
  "representable rnd x \<longleftrightarrow> rnd x = Fin x"

text \<open>
  The accuracy of one operation whose exact result is at most \<open>10 ^ 10\<close> in magnitude:
  a relative error of at most \<open>2 ^ -53\<close>, or an absolute error of at most \<open>2 ^ -1075\<close>
  for a subnormal result.
\<close>

definition accurate :: "rounding \<Rightarrow> bool" where
  "accurate rnd \<longleftrightarrow>
     (\<forall>x. \<bar>x\<bar> \<le> 10 ^ 10 \<longrightarrow>
        (\<exists>y. rnd x = Fin y \<and> \<bar>y - x\<bar> \<le> \<bar>x\<bar> / 2 ^ 53 + 1 / 2 ^ 1075))"

section \<open>The mortgage calculator\<close>

datatype error = UnsupportedFrequency string

definition periodsPerYear :: "string \<Rightarrow> error + real" where
  "periodsPerYear frequency =
     (if frequency = ''monthly'' then Inr 12
      else if frequency = ''fortnightly'' then Inr 26
      else if frequency = ''weekly'' then Inr 52
      else Inl (UnsupportedFrequency frequency))"

definition clampMin0 :: "real \<Rightarrow> real" where
  "clampMin0 x = (if x < 0 then 0 else x)"

definition effectivePrincipal :: "rounding \<Rightarrow> jsnum \<Rightarrow> jsnum \<Rightarrow> jsnum" where
  "effectivePrincipal rnd balance offsetBalance =
     jmax (Fin 0) (jsub rnd balance (jmax (Fin 0) offsetBalance))"

definition repaymentPayment :: "rounding \<Rightarrow> real \<Rightarrow> real \<Rightarrow> int \<Rightarrow> jsnum" where
  "repaymentPayment rnd princ rate n =
     (if n \<le> 0 then NaN
      else if rate = 0 then jdiv rnd (Fin princ) (Fin (of_int n))
      else
        let pow = jpow rnd (jadd rnd (Fin 1) (Fin rate)) (of_int n)
        in jdiv rnd (jmul rnd (Fin princ) (jmul rnd (Fin rate) pow)) (jsub rnd pow (Fin 1)))"

record loan_params =
  principal :: real
  annualRatePct :: real
  years :: real
  frequency :: string
  ptype :: string
  offsetBalance :: "real option"

record period_row =
  row_period :: int
  row_payment :: jsnum
  row_interest :: jsnum
  row_principalPaid :: jsnum
  row_balance :: jsnum
  row_effectivePrincipal :: jsnum

record schedule_result =
  payment :: jsnum
  periodicRate :: real
  nPeriods :: int
  schedule :: "period_row list"

text \<open>The body of the loop of \<open>buildSchedule\<close>, after the test of the balance: the row of one period.\<close>

definition scheduleRow ::
  "rounding \<Rightarrow> string \<Rightarrow> jsnum \<Rightarrow> real \<Rightarrow> real \<Rightarrow> int \<Rightarrow> jsnum \<Rightarrow> period_row" where
  "scheduleRow rnd type pay rate offs period bal =
     (let eff = effectivePrincipal rnd bal (Fin offs);
          interest = jmul rnd eff (Fin rate);
          principalPaid =
            (if type = ''interestOnly'' then Fin 0
             else
               let pp = jmax (Fin 0) (jsub rnd pay interest)
               in if jgt pp bal then bal else pp);
          newBalance = jmax (Fin 0) (jsub rnd bal principalPaid)
      in \<lparr>row_period = period, row_payment = pay, row_interest = interest,
          row_principalPaid = principalPaid, row_balance = newBalance,
          row_effectivePrincipal = eff\<rparr>)"

text \<open>The loop: \<open>for (period = 1; period <= nPeriods; period++)\<close>, with its \<open>break\<close>.\<close>

function scheduleLoop ::
  "rounding \<Rightarrow> string \<Rightarrow> jsnum \<Rightarrow> real \<Rightarrow> real \<Rightarrow> int \<Rightarrow> int \<Rightarrow> jsnum \<Rightarrow> period_row list"
  where
  "scheduleLoop rnd type pay rate offs n period bal =
     (if period \<le> n then
        (if jle bal (Fin 0) then []
         else
           let row = scheduleRow rnd type pay rate offs period bal
           in row # scheduleLoop rnd type pay rate offs n (period + 1) (row_balance row))
      else [])"
  by pat_completeness auto
termination
  by (relation
      "measure (\<lambda>(rnd, type, pay, rate, offs, n, period, bal). nat (n + 1 - period))") auto

declare scheduleLoop.simps [simp del]

definition buildSchedule :: "rounding \<Rightarrow> loan_params \<Rightarrow> error + schedule_result" where
  "buildSchedule rnd params =
     (let principal = clampMin0 (loan_params.principal params);
          annualRatePct = clampMin0 (loan_params.annualRatePct params);
          years = clampMin0 (loan_params.years params);
          frequency = loan_params.frequency params;
          type = ptype params;
          offsetBalance =
            clampMin0 (nullish (loan_params.offsetBalance params) 0)
      in case periodsPerYear frequency of
           Inl e \<Rightarrow> Inl e
         | Inr ppy \<Rightarrow>
             let nPeriods = js_round (years * ppy);
                 periodicRate = (annualRatePct / 100) / ppy;
                 payment =
                   (if type = ''interestOnly''
                    then jmul rnd (Fin principal) (Fin periodicRate)
                    else repaymentPayment rnd principal periodicRate nPeriods)
             in Inr \<lparr>payment = payment, periodicRate = periodicRate, nPeriods = nPeriods,
                     schedule =
                       scheduleLoop rnd type payment periodicRate offsetBalance nPeriods 1
                         (Fin principal)\<rparr>)"

section \<open>The rent versus buy comparison\<close>

definition monthlyMortgagePayment :: "rounding \<Rightarrow> real \<Rightarrow> real \<Rightarrow> real \<Rightarrow> jsnum" where
  "monthlyMortgagePayment rnd princ ratePct yrs =
     (let r = (ratePct / 100) / 12;
          n = js_round (yrs * 12)
      in if n \<le> 0 then NaN else repaymentPayment rnd princ r n)"

definition clamp01 :: "real \<Rightarrow> real" where
  "clamp01 x = max 0 (min 1 x)"

record rvb_params =
  price :: real
  depositPct :: real
  mortgageRatePct :: real
  termYears :: real
  ownerMonthlyCosts :: real
  rentMonthly :: real
  rentExtraMonthly :: real
  horizonYears :: real
  rentInflationPct :: real
  ownerCostInflationPct :: real
  priceGrowthPct :: real
  sellingCostPct :: real
  includeSdlt :: bool
  legalFees :: "real option"
  surveyFees :: "real option"
  saleLegalFees :: "real option"

text \<open>
  \<open>calcSdlt\<close> lives in \<open>sdlt.js\<close>, outside the calculators modelled here: the comparison
  takes it as a parameter, a function from the price to the object it returns.
\<close>

record sdlt_result =
  sdlt_ok :: bool
  sdlt_total :: jsnum

record rvb_result =
  out_deposit :: real
  out_principal :: real
  out_mortgageMonthly :: jsnum
  out_rentMonthly0 :: real
  out_ownerMonthly :: jsnum
  out_rentTotalBasic :: real
  out_buyTotalBasic :: jsnum
  out_rentTotal :: jsnum
  out_buyTotal :: jsnum
  out_sdlt :: jsnum
  out_buyUpfront :: jsnum
  out_salePrice :: jsnum
  out_selling :: jsnum
  out_remainingBalance :: jsnum
  out_equity :: jsnum
  out_buyNetCost :: jsnum

text \<open>
  The loop \<open>for (m = 0; m < months; m++)\<close> that accumulates \<open>rentTotal\<close> and
  \<open>buyTotal\<close>; the pair is the state of the two variables.
\<close>

function inflationLoop ::
  "rounding \<Rightarrow> real \<Rightarrow> jsnum \<Rightarrow> real \<Rightarrow> real \<Rightarrow> int \<Rightarrow> int \<Rightarrow> jsnum \<times> jsnum \<Rightarrow> jsnum \<times> jsnum"
  where
  "inflationLoop rnd rentMonthly0 ownerMonthly rentInfl ownerInfl months m
       (rentTotal, buyTotal) =
     (if m < months then
        let y = of_int m / 12
        in inflationLoop rnd rentMonthly0 ownerMonthly rentInfl ownerInfl months (m + 1)
             (jadd rnd rentTotal
                (jmul rnd (Fin rentMonthly0) (jpow rnd (jadd rnd (Fin 1) (Fin rentInfl)) y)),
              jadd rnd buyTotal
                (jmul rnd ownerMonthly (jpow rnd (jadd rnd (Fin 1) (Fin ownerInfl)) y)))
      else (rentTotal, buyTotal))"
  by pat_completeness auto
termination
  by (relation "measure (\<lambda>(rnd, a, b, c, d, months, m, t). nat (months - m))") auto

declare inflationLoop.simps [simp del]

text \<open>The loop \<open>for (i = 0; i < Math.min(months, n); i++)\<close> that walks the balance.\<close>

function balanceLoop :: "rounding \<Rightarrow> real \<Rightarrow> jsnum \<Rightarrow> int \<Rightarrow> int \<Rightarrow> jsnum \<Rightarrow> jsnum" where
  "balanceLoop rnd r pmt k i bal =
     (if i < k then
        let interest = jmul rnd bal (Fin r);
            principalPaid = jmax (Fin 0) (jsub rnd pmt interest)
        in balanceLoop rnd r pmt k (i + 1) (jmax (Fin 0) (jsub rnd bal principalPaid))
      else bal)"
  by pat_completeness auto
termination
  by (relation "measure (\<lambda>(rnd, r, pmt, k, i, bal). nat (k - i))") auto

declare balanceLoop.simps [simp del]

definition rentVsBuy ::
  "rounding \<Rightarrow> (real \<Rightarrow> sdlt_result) \<Rightarrow> rvb_params \<Rightarrow> rvb_result" where
  "rentVsBuy rnd calcSdlt params =
     (let price = rvb_params.price params;
          deposit = price * clamp01 (depositPct params / 100);
          principal = max 0 (price - deposit);
          mortgageMonthly =
            monthlyMortgagePayment rnd principal (mortgageRatePct params) (termYears params);
          ownerMonthly = jadd rnd mortgageMonthly (Fin (ownerMonthlyCosts params));
          rentMonthly0 = rentMonthly params + rentExtraMonthly params;
          months = js_round (horizonYears params * 12);
          rentTotalBasic = rentMonthly0 * of_int months;
          buyTotalBasic = jmul rnd ownerMonthly (Fin (of_int months));
          rentInfl = rentInflationPct params / 100;
          ownerInfl = ownerCostInflationPct params / 100;
          totals = inflationLoop rnd rentMonthly0 ownerMonthly rentInfl ownerInfl months 0
                     (Fin 0, Fin 0);
          rentTotal = fst totals;
          buyTotal = snd totals;
          sdlt = (if includeSdlt params then calcSdlt price
                  else \<lparr>sdlt_ok = True, sdlt_total = Fin 0\<rparr>);
          sdltCost = (if sdlt_ok sdlt then sdlt_total sdlt else Fin 0);
          buyUpfront =
            jadd rnd
              (jadd rnd (Fin (nullish (legalFees params) 0))
                 (Fin (nullish (surveyFees params) 0)))
              sdltCost;
          salePrice =
            jmul rnd (Fin price)
              (jpow rnd (jadd rnd (Fin 1) (Fin (priceGrowthPct params / 100)))
                 (horizonYears params));
          selling =
            jadd rnd (jmul rnd salePrice (Fin (sellingCostPct params / 100)))
                 (Fin (nullish (saleLegalFees params) 0));
          r = (mortgageRatePct params / 100) / 12;
          n = js_round (termYears params * 12);
          pmt = mortgageMonthly;
          balance = balanceLoop rnd r pmt (min months n) 0 (Fin principal);
          equity = jmax (Fin 0) (jsub rnd (jsub rnd salePrice balance) selling);
          buyNetCost = jsub rnd (jadd rnd buyTotal buyUpfront) equity
      in \<lparr>out_deposit = deposit, out_principal = principal,
          out_mortgageMonthly = mortgageMonthly, out_rentMonthly0 = rentMonthly0,
          out_ownerMonthly = ownerMonthly, out_rentTotalBasic = rentTotalBasic,
          out_buyTotalBasic = buyTotalBasic, out_rentTotal = rentTotal,
          out_buyTotal = buyTotal, out_sdlt = sdltCost, out_buyUpfront = buyUpfront,
          out_salePrice = salePrice, out_selling = selling,
          out_remainingBalance = balance, out_equity = equity,
          out_buyNetCost = buyNetCost\<rparr>)"

section \<open>Sums of numbers, and a stamp duty that is always zero\<close>

text \<open>The sum of a list of numbers in exact arithmetic.\<close>

primrec jsum :: "jsnum list \<Rightarrow> jsnum" where
  "jsum [] = Fin 0"
| "jsum (x # xs) = jadd exact x (jsum xs)"

text \<open>A stand-in for \<open>calcSdlt\<close> in concrete evaluations: no stamp duty at any price.\<close>

definition noSdlt :: "real \<Rightarrow> sdlt_result" where
  "noSdlt p = \<lparr>sdlt_ok = True, sdlt_total = Fin 0\<rparr>"

section \<open>Worked examples\<close>

text \<open>
  A loan of 1200 at 12 percent a year, repaid monthly over two months: the periodic rate
  is 1/100 and the payment 40804/67, about 609.01.
\<close>

definition example_loan :: loan_params where
  "example_loan =
     \<lparr>principal = 1200, annualRatePct = 12, years = 1 / 6, frequency = ''monthly'',
      ptype = ''repayment'', offsetBalance = None\<rparr>"

definition example_result :: schedule_result where
  "example_result =
     \<lparr>payment = Fin (40804 / 67), periodicRate = 1 / 100, nPeriods = 2,
      schedule =
        [\<lparr>row_period = 1, row_payment = Fin (40804 / 67), row_interest = Fin 12,
          row_principalPaid = Fin (40000 / 67), row_balance = Fin (40400 / 67),
          row_effectivePrincipal = Fin 1200\<rparr>,
         \<lparr>row_period = 2, row_payment = Fin (40804 / 67), row_interest = Fin (404 / 67),
          row_principalPaid = Fin (40400 / 67), row_balance = Fin 0,
          row_effectivePrincipal = Fin (40400 / 67)\<rparr>]\<rparr>"

text \<open>The same loan, interest-only, with 500 held in the offset account.\<close>

definition example_interestOnly :: loan_params where
  "example_interestOnly = example_loan\<lparr>ptype := ''interestOnly'', offsetBalance := Some 500\<rparr>"

definition example_interestOnly_result :: schedule_result where
  "example_interestOnly_result =
     \<lparr>payment = Fin 12, periodicRate = 1 / 100, nPeriods = 2,
      schedule =
        [\<lparr>row_period = 1, row_payment = Fin 12, row_interest = Fin 7,
          row_principalPaid = Fin 0, row_balance = Fin 1200,
          row_effectivePrincipal = Fin 700\<rparr>,
         \<lparr>row_period = 2, row_payment = Fin 12, row_interest = Fin 7,
          row_principalPaid = Fin 0, row_balance = Fin 1200,
          row_effectivePrincipal = Fin 700\<rparr>]\<rparr>"

text \<open>The repayment loan with more in the offset account than is owed.\<close>

definition example_fullOffset :: loan_params where
  "example_fullOffset = example_loan\<lparr>offsetBalance := Some 1500\<rparr>"

definition example_fullOffset_result :: schedule_result where
  "example_fullOffset_result =
     \<lparr>payment = Fin (40804 / 67), periodicRate = 1 / 100, nPeriods = 2,
      schedule =
        [\<lparr>row_period = 1, row_payment = Fin (40804 / 67), row_interest = Fin 0,
          row_principalPaid = Fin (40804 / 67), row_balance = Fin (39596 / 67),
          row_effectivePrincipal = Fin 0\<rparr>,
         \<lparr>row_period = 2, row_payment = Fin (40804 / 67), row_interest = Fin 0,
          row_principalPaid = Fin (39596 / 67), row_balance = Fin 0,
          row_effectivePrincipal = Fin 0\<rparr>]\<rparr>"

text \<open>The repayment loan with 500, and with 800, in the offset account.\<close>

definition example_offset500_result :: schedule_result where
  "example_offset500_result =
     \<lparr>payment = Fin (40804 / 67), periodicRate = 1 / 100, nPeriods = 2,
      schedule =
        [\<lparr>row_period = 1, row_payment = Fin (40804 / 67), row_interest = Fin 7,
          row_principalPaid = Fin (40335 / 67), row_balance = Fin (40065 / 67),
          row_effectivePrincipal = Fin 700\<rparr>,
         \<lparr>row_period = 2, row_payment = Fin (40804 / 67), row_interest = Fin (1313 / 1340),
          row_principalPaid = Fin (40065 / 67), row_balance = Fin 0,
          row_effectivePrincipal = Fin (6565 / 67)\<rparr>]\<rparr>"

definition example_offset800_result :: schedule_result where
  "example_offset800_result =
     \<lparr>payment = Fin (40804 / 67), periodicRate = 1 / 100, nPeriods = 2,
      schedule =
        [\<lparr>row_period = 1, row_payment = Fin (40804 / 67), row_interest = Fin 4,
          row_principalPaid = Fin (40536 / 67), row_balance = Fin (39864 / 67),
          row_effectivePrincipal = Fin 400\<rparr>,
         \<lparr>row_period = 2, row_payment = Fin (40804 / 67), row_interest = Fin 0,
          row_principalPaid = Fin (39864 / 67), row_balance = Fin 0,
          row_effectivePrincipal = Fin 0\<rparr>]\<rparr>"

text \<open>
  A purchase at 200000 with a deposit of 10 percent, compared with a rent of 950 a month
  over one year.
\<close>

definition example_rvb :: rvb_params where
  "example_rvb =
     \<lparr>price = 200000, depositPct = 10, mortgageRatePct = 6, termYears = 25,
      ownerMonthlyCosts = 150, rentMonthly = 900, rentExtraMonthly = 50, horizonYears = 1,
      rentInflationPct = 0, ownerCostInflationPct = 0, priceGrowthPct = 0,
      sellingCostPct = 1, includeSdlt = False, legalFees = Some 1500, surveyFees = None,
      saleLegalFees = None\<rparr>"


text \<open>A loan whose numeric fields are all negative.\<close>

definition example_negative :: loan_params where
  "example_negative =
     \<lparr>principal = - 5, annualRatePct = - 1, years = - 2, frequency = ''monthly'',
      ptype = ''repayment'', offsetBalance = Some (- 3)\<rparr>"

text \<open>
  A loan of 1000 at 1200 percent a year, a periodic rate of 1, repaid monthly over 100
  years, that is 1200 periods; and the same loan with 2000 in the offset account.
\<close>

definition example_overflow :: loan_params where
  "example_overflow =
     \<lparr>principal = 1000, annualRatePct = 1200, years = 100, frequency = ''monthly'',
      ptype = ''repayment'', offsetBalance = None\<rparr>"

definition example_overflow_offset :: loan_params where
  "example_overflow_offset = example_overflow\<lparr>offsetBalance := Some 2000\<rparr>"

text \<open>A loan of \<open>2 ^ 60\<close> at a periodic rate of 1, repaid monthly over one year.\<close>

definition example_large :: loan_params where
  "example_large =
     \<lparr>principal = 2 ^ 60, annualRatePct = 1200, years = 1, frequency = ''monthly'',
      ptype = ''repayment'', offsetBalance = None\<rparr>"

text \<open>The result of the schedule builder in binary64, where it returns one.\<close>

definition schedule64 :: "loan_params \<Rightarrow> schedule_result" where
  "schedule64 params = projr (buildSchedule round64 params)"

text \<open>
  The balance before period \<open>i\<close> of a schedule (counted from 0): the starting balance, or
  the balance of the row before.
\<close>

definition balance_before :: "jsnum \<Rightarrow> period_row list \<Rightarrow> nat \<Rightarrow> jsnum" where
  "balance_before start rows i = (if i = 0 then start else row_balance (rows ! (i - 1)))"

section \<open>Exact arithmetic\<close>

lemma jsub_Fin [simp]: "jsub exact (Fin a) (Fin b) = Fin (a - b)"
  by (simp add: jsub_def)

lemma jmax_Fin [simp]: "jmax (Fin a) (Fin b) = Fin (max a b)"
  by (simp add: jmax_def max_def)

lemma jle_Fin [simp]: "jle (Fin a) (Fin b) = (a \<le> b)"
  by (auto simp add: jle_def)

lemma jgt_Fin [simp]: "jgt (Fin a) (Fin b) = (b < a)"
  by (simp add: jgt_def)

lemma effectivePrincipal_Fin [simp]:
  "effectivePrincipal exact (Fin b) (Fin c) = Fin (max 0 (b - max 0 c))"
  by (simp add: effectivePrincipal_def)


lemma jadd_zero_right [simp]: "jadd exact x (Fin 0) = x"
  by (cases x) simp_all

lemma jadd_zero_left [simp]: "jadd exact (Fin 0) x = x"
  by (cases x) simp_all

lemma js_pow_int: "0 < x \<Longrightarrow> 0 < n \<Longrightarrow> js_pow exact x (of_int n) = Fin (x ^ nat n)"
proof -
  assume x: "0 < x" and n: "0 < n"
  have "x powr (of_int n) = x powr (real (nat n))" using n by simp
  also have "\<dots> = x ^ nat n" using x by (rule powr_realpow)
  finally show ?thesis using x n by (simp add: js_pow_def)
qed

lemma js_pow_numeral: "0 < x \<Longrightarrow> js_pow exact x (numeral k) = Fin (x ^ numeral k)"
  by (simp add: js_pow_def)

text \<open>Exact arithmetic is a rounding, of perfect accuracy, and every real is one of its numbers.\<close>

lemma is_rounding_exact: "is_rounding exact"
  by (simp add: is_rounding_def)

lemma accurate_exact: "accurate exact"
  by (simp add: accurate_def)

lemma representable_exact: "representable exact x"
  by (simp add: representable_def)

lemma js_round_nonneg: "0 \<le> x \<Longrightarrow> 0 \<le> js_round x"
  by (simp add: js_round_def)

lemma clampMin0_nonneg: "0 \<le> clampMin0 x"
  by (simp add: clampMin0_def)

lemma periodsPerYear_pos: "periodsPerYear f = Inr ppy \<Longrightarrow> 0 < ppy"
  by (auto simp add: periodsPerYear_def split: if_splits)

lemma clampMin0_max: "clampMin0 x = max 0 x"
  by (simp add: clampMin0_def)

text \<open>Not-a-number absorbs every operation, whatever the rounding.\<close>

lemma jadd_NaN_right [simp]: "jadd rnd x NaN = NaN"
  by (cases x) simp_all

lemma jmul_NaN_right [simp]: "jmul rnd x NaN = NaN"
  by (cases x) simp_all

lemma jsub_NaN [simp]: "jsub rnd NaN y = NaN" "jsub rnd x NaN = NaN"
  by (simp_all add: jsub_def)

section \<open>The rounding of binary64: properties\<close>

lemma rne_cases: "rne q = \<lfloor>q\<rfloor> \<or> rne q = \<lfloor>q\<rfloor> + 1"
  by (simp add: rne_def Let_def)

lemma rne_close: "\<bar>of_int (rne q) - q\<bar> \<le> 1 / 2"
proof -
  have "of_int \<lfloor>q\<rfloor> \<le> q" "q < of_int \<lfloor>q\<rfloor> + 1" by linarith+
  then show ?thesis by (auto simp add: rne_def Let_def)
qed

lemma rne_of_int [simp]: "rne (of_int k) = k"
  by (simp add: rne_def)

lemma rne_zero [simp]: "rne 0 = 0"
  using rne_of_int[of 0] by simp

lemma rne_mono: "q1 \<le> q2 \<Longrightarrow> rne q1 \<le> rne q2"
proof -
  assume le: "q1 \<le> q2"
  then have f: "\<lfloor>q1\<rfloor> \<le> \<lfloor>q2\<rfloor>" by (rule floor_mono)
  show ?thesis
  proof (cases "\<lfloor>q1\<rfloor> = \<lfloor>q2\<rfloor>")
    case True
    with le show ?thesis by (auto simp add: rne_def Let_def)
  next
    case False
    with f have "\<lfloor>q1\<rfloor> + 1 \<le> \<lfloor>q2\<rfloor>" by simp
    moreover have "rne q1 \<le> \<lfloor>q1\<rfloor> + 1" using rne_cases[of q1] by auto
    moreover have "\<lfloor>q2\<rfloor> \<le> rne q2" using rne_cases[of q2] by auto
    ultimately show ?thesis by simp
  qed
qed

lemma rne_minus: "rne (- q) = - rne q"
proof (cases "of_int \<lfloor>q\<rfloor> = q")
  case True
  then obtain k where "q = of_int k" by metis
  then show ?thesis by (simp flip: of_int_minus)
next
  case False
  then have "\<lceil>q\<rceil> = \<lfloor>q\<rfloor> + 1" by (auto simp add: ceiling_altdef)
  then have fl: "\<lfloor>- q\<rfloor> = - \<lfloor>q\<rfloor> - 1" by (simp add: ceiling_def)
  show ?thesis
    unfolding rne_def Let_def fl by auto
qed

lemma expo64_ge: "- 1022 \<le> expo64 x"
  by (simp add: expo64_def)

lemma expo64_minus [simp]: "expo64 (- x) = expo64 x"
  by (simp add: expo64_def)

lemma ulp64_pos: "0 < ulp64 x"
  by (simp add: ulp64_def)

lemma ulp64_minus [simp]: "ulp64 (- x) = ulp64 x"
  by (simp add: ulp64_def)

lemma floor_log2_bounds:
  assumes "x \<noteq> 0"
  shows "2 powr of_int \<lfloor>log 2 \<bar>x\<bar>\<rfloor> \<le> \<bar>x\<bar>" and "\<bar>x\<bar> < 2 powr (of_int \<lfloor>log 2 \<bar>x\<bar>\<rfloor> + 1)"
proof -
  from assms have "0 < \<bar>x\<bar>" by simp
  then have "2 powr of_int \<lfloor>log 2 \<bar>x\<bar>\<rfloor> \<le> \<bar>x\<bar> \<and> \<bar>x\<bar> < 2 powr (of_int \<lfloor>log 2 \<bar>x\<bar>\<rfloor> + 1)"
    using floor_log_eq_powr_iff[of "\<bar>x\<bar>" 2 "\<lfloor>log 2 \<bar>x\<bar>\<rfloor>"] by simp
  then show "2 powr of_int \<lfloor>log 2 \<bar>x\<bar>\<rfloor> \<le> \<bar>x\<bar>" and "\<bar>x\<bar> < 2 powr (of_int \<lfloor>log 2 \<bar>x\<bar>\<rfloor> + 1)"
    by simp_all
qed

lemma expo64_eq:
  assumes "2 powr of_int e \<le> \<bar>x\<bar>" and "\<bar>x\<bar> < 2 powr (of_int e + 1)" and "- 1022 \<le> e"
  shows "expo64 x = e"
proof -
  have "0 < (2::real) powr of_int e" by simp
  with assms(1) have "0 < \<bar>x\<bar>" by linarith
  with assms(1,2) have "\<lfloor>log 2 \<bar>x\<bar>\<rfloor> = e"
    using floor_log_eq_powr_iff[of "\<bar>x\<bar>" 2 e] by simp
  with assms(3) show ?thesis by (simp add: expo64_def)
qed

lemma expo64_subnormal:
  assumes "x \<noteq> 0" and "\<bar>x\<bar> < 2 powr (- 1022)"
  shows "expo64 x = - 1022"
proof -
  define k where "k = \<lfloor>log 2 \<bar>x\<bar>\<rfloor>"
  from floor_log2_bounds(1)[OF assms(1)] assms(2)
  have "(2::real) powr of_int k < 2 powr (- 1022)" unfolding k_def by linarith
  then have "(of_int k :: real) < - 1022" by simp
  then have "k < - 1022" by linarith
  then show ?thesis by (simp add: expo64_def flip: k_def)
qed

lemma expo64_upper: "x \<noteq> 0 \<Longrightarrow> \<bar>x\<bar> < 2 powr (of_int (expo64 x) + 1)"
proof -
  assume x: "x \<noteq> 0"
  have "(2::real) powr (of_int \<lfloor>log 2 \<bar>x\<bar>\<rfloor> + 1) \<le> 2 powr (of_int (expo64 x) + 1)"
    by (simp add: expo64_def)
  with floor_log2_bounds(2)[OF x] show ?thesis by linarith
qed

lemma expo64_lower:
  assumes "2 powr (- 1022) \<le> \<bar>x\<bar>"
  shows "2 powr of_int (expo64 x) \<le> \<bar>x\<bar>"
proof -
  have "0 < (2::real) powr (- 1022)" by simp
  with assms have x: "x \<noteq> 0" by auto
  define k where "k = \<lfloor>log 2 \<bar>x\<bar>\<rfloor>"
  from assms floor_log2_bounds(2)[OF x]
  have "(2::real) powr (- 1022) < 2 powr (of_int k + 1)" unfolding k_def by linarith
  then have "(- 1022 :: real) < of_int k + 1" by simp
  then have "- 1022 \<le> k" by linarith
  then have "expo64 x = k" by (simp add: expo64_def flip: k_def)
  with floor_log2_bounds(1)[OF x] show ?thesis by (simp add: k_def)
qed

lemma expo64_mono:
  assumes "0 < x" and "x \<le> y"
  shows "expo64 x \<le> expo64 y"
proof -
  from assms have "log 2 \<bar>x\<bar> \<le> log 2 \<bar>y\<bar>" by simp
  then have "\<lfloor>log 2 \<bar>x\<bar>\<rfloor> \<le> \<lfloor>log 2 \<bar>y\<bar>\<rfloor>" by (rule floor_mono)
  then show ?thesis by (simp add: expo64_def)
qed

text \<open>The number of spacings in a number: below \<open>2 ^ 53\<close>, and at least \<open>2 ^ 52\<close> for a normal number.\<close>

lemma ulp64_times: "ulp64 x * 2 ^ 53 = 2 powr (of_int (expo64 x) + 1)"
proof -
  have "(2::real) powr (of_int (expo64 x) - 52) * 2 powr 53 = 2 powr (of_int (expo64 x) + 1)"
    by (subst powr_add[symmetric]) (simp add: add.commute)
  moreover have "(2::real) powr 53 = 2 ^ 53" by simp
  ultimately show ?thesis by (simp only: ulp64_def)
qed

lemma ulp64_times': "ulp64 x * 2 ^ 52 = 2 powr of_int (expo64 x)"
proof -
  have "(2::real) powr (of_int (expo64 x) - 52) * 2 powr 52 = 2 powr of_int (expo64 x)"
    by (subst powr_add[symmetric]) simp
  moreover have "(2::real) powr 52 = 2 ^ 52" by simp
  ultimately show ?thesis by (simp only: ulp64_def)
qed

lemma quot64_less: "x \<noteq> 0 \<Longrightarrow> \<bar>x\<bar> / ulp64 x < 2 ^ 53"
  using expo64_upper[of x] ulp64_pos[of x] by (simp add: pos_divide_less_eq mult.commute flip: ulp64_times)

lemma quot64_ge: "2 powr (- 1022) \<le> \<bar>x\<bar> \<Longrightarrow> 2 ^ 52 \<le> \<bar>x\<bar> / ulp64 x"
  using expo64_lower[of x] ulp64_pos[of x] by (simp add: pos_le_divide_eq mult.commute flip: ulp64_times')

lemma expo64_lower':
  assumes "x \<noteq> 0" and "- 1022 < expo64 x"
  shows "2 powr of_int (expo64 x) \<le> \<bar>x\<bar>"
proof -
  from assms(2) have "expo64 x = \<lfloor>log 2 \<bar>x\<bar>\<rfloor>" by (simp add: expo64_def max_def split: if_splits)
  with floor_log2_bounds(1)[OF assms(1)] show ?thesis by simp
qed

lemma two_powr_less: "(2::real) powr a < 2 powr b \<longleftrightarrow> a < b"
  by simp

lemma two_powr_le: "(2::real) powr a \<le> 2 powr b \<longleftrightarrow> a \<le> b"
  by simp

lemma pow1024: "(2::real) ^ 1024 = 2 powr of_int 1024"
  by simp

subsection \<open>The nearest multiple of the spacing\<close>

lemma nearest64_zero [simp]: "nearest64 0 = 0"
  by (simp add: nearest64_def)

lemma nearest64_minus: "nearest64 (- x) = - nearest64 x"
  by (simp add: nearest64_def rne_minus)

lemma rne_nonneg: "0 \<le> q \<Longrightarrow> 0 \<le> rne q"
  using rne_mono[of 0 q] by simp

lemma rne_le_int: "q \<le> of_int k \<Longrightarrow> rne q \<le> k"
  using rne_mono[of q "of_int k"] by simp

lemma rne_ge_int: "of_int k \<le> q \<Longrightarrow> k \<le> rne q"
  using rne_mono[of "of_int k" q] by simp

lemma nearest64_nonneg: "0 < x \<Longrightarrow> 0 \<le> nearest64 x"
  using ulp64_pos[of x] by (simp add: nearest64_def rne_nonneg)

lemma count64_le:
  assumes "0 < x"
  shows "rne (x / ulp64 x) \<le> 2 ^ 53"
proof -
  from assms quot64_less[of x] have "x / ulp64 x \<le> of_int (2 ^ 53)" by simp
  then show ?thesis by (rule rne_le_int)
qed

lemma count64_ge:
  assumes "0 < x" and "2 powr of_int (expo64 x) \<le> x"
  shows "2 ^ 52 \<le> rne (x / ulp64 x)"
proof -
  from assms ulp64_pos[of x] have "of_int (2 ^ 52) \<le> x / ulp64 x"
    by (simp add: pos_le_divide_eq mult.commute flip: ulp64_times')
  then show ?thesis by (rule rne_ge_int)
qed

lemma nearest64_upper:
  assumes "0 < x"
  shows "nearest64 x \<le> 2 powr (of_int (expo64 x) + 1)"
proof -
  from count64_le[OF assms] have "(of_int (rne (x / ulp64 x)) :: real) \<le> of_int (2 ^ 53)"
    by (simp only: of_int_le_iff)
  then have "of_int (rne (x / ulp64 x)) * ulp64 x \<le> 2 ^ 53 * ulp64 x"
    using ulp64_pos[of x] by simp
  then show ?thesis by (simp add: nearest64_def mult.commute flip: ulp64_times)
qed

lemma nearest64_lower:
  assumes "0 < x" and "2 powr of_int (expo64 x) \<le> x"
  shows "2 powr of_int (expo64 x) \<le> nearest64 x"
proof -
  from count64_ge[OF assms] have "(of_int (2 ^ 52) :: real) \<le> of_int (rne (x / ulp64 x))"
    by (simp only: of_int_le_iff)
  then have "2 ^ 52 * ulp64 x \<le> of_int (rne (x / ulp64 x)) * ulp64 x"
    using ulp64_pos[of x] by simp
  then show ?thesis by (simp add: nearest64_def mult.commute flip: ulp64_times')
qed

lemma nearest64_mono:
  assumes "0 < x" and "x \<le> y"
  shows "nearest64 x \<le> nearest64 y"
proof (cases "expo64 x = expo64 y")
  case True
  then have u: "ulp64 x = ulp64 y" by (simp add: ulp64_def)
  from assms(2) ulp64_pos[of y] have "x / ulp64 y \<le> y / ulp64 y" by (simp add: divide_right_mono)
  then have "rne (x / ulp64 y) \<le> rne (y / ulp64 y)" by (rule rne_mono)
  then have "(of_int (rne (x / ulp64 y)) :: real) \<le> of_int (rne (y / ulp64 y))" by simp
  with ulp64_pos[of y] show ?thesis by (simp add: nearest64_def u)
next
  case False
  with expo64_mono[OF assms] have lt: "expo64 x < expo64 y" by simp
  from assms have y: "0 < y" by simp
  from lt expo64_ge[of x] have "- 1022 < expo64 y" by simp
  with y have "2 powr of_int (expo64 y) \<le> y" using expo64_lower'[of y] by simp
  with y have "2 powr of_int (expo64 y) \<le> nearest64 y" by (rule nearest64_lower)
  moreover from lt have "(2::real) powr (of_int (expo64 x) + 1) \<le> 2 powr of_int (expo64 y)"
    by simp
  moreover note nearest64_upper[OF assms(1)]
  ultimately show ?thesis by linarith
qed

lemma nearest64_close: "\<bar>nearest64 x - x\<bar> \<le> ulp64 x / 2"
proof -
  have "nearest64 x - x = (of_int (rne (x / ulp64 x)) - x / ulp64 x) * ulp64 x"
    using ulp64_pos[of x] by (simp add: nearest64_def algebra_simps)
  then have "\<bar>nearest64 x - x\<bar> = \<bar>of_int (rne (x / ulp64 x)) - x / ulp64 x\<bar> * ulp64 x"
    using ulp64_pos[of x] by (simp add: abs_mult)
  also have "\<dots> \<le> 1 / 2 * ulp64 x"
    using rne_close[of "x / ulp64 x"] ulp64_pos[of x] by (intro mult_right_mono) simp_all
  finally show ?thesis by simp
qed

lemma nearest64_exact:
  assumes "x / ulp64 x = of_int k"
  shows "nearest64 x = x"
proof -
  from assms have "nearest64 x = x / ulp64 x * ulp64 x" by (simp add: nearest64_def)
  with ulp64_pos[of x] show ?thesis by simp
qed

text \<open>A multiple of the spacing that is in range is a double: rounding leaves it unchanged.\<close>

lemma nearest64_idem:
  assumes "0 < x"
  shows "nearest64 (nearest64 x) = nearest64 x"
proof -
  define e where "e = expo64 x"
  define u where "u = ulp64 x"
  define n where "n = rne (x / u)"
  define Y where "Y = nearest64 x"
  have u: "0 < u" and Y: "Y = of_int n * u"
    by (simp_all add: u_def ulp64_pos Y_def nearest64_def n_def)
  have u52: "u * 2 ^ 52 = 2 powr of_int e" and u53: "u * 2 ^ 53 = 2 powr (of_int e + 1)"
    by (simp_all only: u_def e_def ulp64_times ulp64_times')
  have e: "- 1022 \<le> e" by (simp add: e_def expo64_ge)
  have n53: "n \<le> 2 ^ 53" unfolding n_def u_def by (rule count64_le[OF assms])
  have n0: "0 \<le> n" unfolding n_def using assms u by (intro rne_nonneg) simp
  consider "n = 0" | "0 < n" "n < 2 ^ 52" | "2 ^ 52 \<le> n" "n < 2 ^ 53" | "n = 2 ^ 53"
    using n0 n53 by linarith
  then have "\<exists>k. Y / ulp64 Y = of_int k"
  proof cases
    case 1
    then show ?thesis by (simp add: Y)
  next
    case 2
    have sub: "\<not> 2 powr of_int e \<le> x"
    proof
      assume "2 powr of_int e \<le> x"
      with assms have "2 ^ 52 \<le> n" unfolding n_def u_def e_def by (intro count64_ge)
      with 2 show False by simp
    qed
    have "e = - 1022"
    proof (rule ccontr)
      assume "e \<noteq> - 1022"
      with e have "- 1022 < expo64 x" by (simp add: e_def)
      with assms have "2 powr of_int e \<le> x" using expo64_lower'[of x] by (simp add: e_def)
      with sub show False by simp
    qed
    from 2 have "(of_int n :: real) < of_int (2 ^ 52)" by (simp only: of_int_less_iff)
    with u have "Y < 2 ^ 52 * u" by (simp add: Y)
    then have Ylt: "Y < 2 powr (- 1022)" using u52 \<open>e = - 1022\<close> by (simp add: mult.commute)
    from 2 u have Ypos: "0 < Y" by (simp add: Y)
    then have "expo64 Y = - 1022" using Ylt by (intro expo64_subnormal) simp_all
    then have "ulp64 Y = u" by (simp add: ulp64_def u_def e_def[symmetric] \<open>e = - 1022\<close>)
    with u show ?thesis by (simp add: Y)
  next
    case 3
    from 3 have "(of_int (2 ^ 52) :: real) \<le> of_int n" "(of_int n :: real) < of_int (2 ^ 53)"
      by (simp_all only: of_int_le_iff of_int_less_iff)
    with u have "2 ^ 52 * u \<le> Y" "Y < 2 ^ 53 * u" by (simp_all add: Y)
    then have "2 powr of_int e \<le> \<bar>Y\<bar>" "\<bar>Y\<bar> < 2 powr (of_int e + 1)"
      using u52 u53 by (simp_all add: mult.commute)
    then have "expo64 Y = e" using e by (rule expo64_eq)
    then have "ulp64 Y = u" by (simp add: ulp64_def u_def e_def)
    with u show ?thesis by (simp add: Y)
  next
    case 4
    then have Yv: "Y = 2 powr (of_int e + 1)" using u53 by (simp add: Y mult.commute)
    have "(2::real) powr (of_int e + 1) < 2 powr (of_int (e + 1) + 1)" by simp
    then have "expo64 Y = e + 1" using e by (intro expo64_eq) (simp_all add: Yv)
    then have "ulp64 Y = 2 powr (of_int e + 1 - 52)" by (simp add: ulp64_def)
    then have "Y / ulp64 Y = 2 powr 52" by (simp add: Yv flip: powr_diff)
    then have "Y / ulp64 Y = of_int (2 ^ 52)" by simp
    then show ?thesis ..
  qed
  then obtain k where "Y / ulp64 Y = of_int k" ..
  then have "nearest64 Y = Y" by (rule nearest64_exact)
  then show ?thesis by (simp add: Y_def)
qed

subsection \<open>The rounding\<close>

lemma round64_pos:
  assumes "0 < x"
  shows "round64 x = (if 2 ^ 1024 \<le> nearest64 x then PInf else Fin (nearest64 x))"
proof -
  have "- (2 ^ 1024) < (0::real)" by simp
  with nearest64_nonneg[OF assms] have "\<not> nearest64 x \<le> - (2 ^ 1024)" by linarith
  with assms show ?thesis by (simp add: round64_def)
qed

lemma round64_minus: "round64 (- x) = jneg (round64 x)"
proof -
  have "(0::real) < 2 ^ 1024" by simp
  then show ?thesis by (auto simp add: round64_def nearest64_minus)
qed

lemma round64_zero [simp]: "round64 0 = Fin 0"
  by (simp add: round64_def)

lemma round64_not_NaN [simp]: "round64 x \<noteq> NaN"
  by (simp add: round64_def)

lemma round64_pos_ge: "0 < x \<Longrightarrow> jle (Fin 0) (round64 x)"
  using nearest64_nonneg[of x] by (simp add: round64_pos jle_def)

lemma round64_mono_pos:
  assumes "0 < x" and "x \<le> y"
  shows "jle (round64 x) (round64 y)"
proof -
  from assms have y: "0 < y" by simp
  from nearest64_mono[OF assms] show ?thesis
    by (auto simp add: round64_pos[OF assms(1)] round64_pos[OF y] jle_def)
qed

lemma jle_jneg: "jle (jneg a) (jneg b) = jle b a"
  by (cases a; cases b) (simp_all add: jle_def)

lemma jle_trans: "jle a b \<Longrightarrow> jle b c \<Longrightarrow> jle a c"
  by (cases a; cases b; cases c) (simp_all add: jle_def)

lemma round64_mono:
  assumes "x \<le> y"
  shows "jle (round64 x) (round64 y)"
proof -
  have neg: "jle (round64 z) (Fin 0)" if "z < 0" for z
  proof -
    from that have "jle (Fin 0) (round64 (- z))" by (intro round64_pos_ge) simp
    then have "jle (jneg (round64 (- z))) (jneg (Fin 0))" by (simp only: jle_jneg)
    then show ?thesis by (simp add: round64_minus[of z, symmetric] flip: round64_minus)
  qed
  consider "0 < x" | "x = 0" "y = 0" | "x = 0" "0 < y" | "x < 0" "0 \<le> y" | "x < 0" "y < 0"
    using assms by linarith
  then show ?thesis
  proof cases
    case 1
    then show ?thesis using assms by (rule round64_mono_pos)
  next
    case 2
    then show ?thesis by (simp add: jle_def)
  next
    case 3
    then show ?thesis by (simp add: round64_pos_ge)
  next
    case 4
    have "jle (Fin 0) (round64 y)"
      using 4(2) round64_pos_ge[of y] by (cases "y = 0") (simp_all add: jle_def)
    with neg[OF 4(1)] show ?thesis by (rule jle_trans)
  next
    case 5
    then have "jle (round64 (- y)) (round64 (- x))"
      using assms by (intro round64_mono_pos) simp_all
    then show ?thesis by (simp add: round64_minus jle_jneg)
  qed
qed

lemma round64_idem_pos:
  assumes "0 < x" and "round64 x = Fin y"
  shows "round64 y = Fin y"
proof -
  from assms have y: "y = nearest64 x" and lt: "\<not> 2 ^ 1024 \<le> nearest64 x"
    by (auto simp add: round64_pos split: if_splits)
  show ?thesis
  proof (cases "y = 0")
    case True
    then show ?thesis by simp
  next
    case False
    with y nearest64_nonneg[OF assms(1)] have "0 < y" by simp
    moreover have "nearest64 y = y" unfolding y by (rule nearest64_idem[OF assms(1)])
    ultimately show ?thesis using lt y by (simp add: round64_pos)
  qed
qed

lemma round64_idem:
  assumes "round64 x = Fin y"
  shows "round64 y = Fin y"
proof -
  consider "0 < x" | "x = 0" | "x < 0" by linarith
  then show ?thesis
  proof cases
    case 1
    then show ?thesis using assms by (rule round64_idem_pos)
  next
    case 2
    with assms show ?thesis by auto
  next
    case 3
    from assms have "round64 (- x) = Fin (- y)"
      by (simp add: round64_minus)
    with 3 have "round64 (- y) = Fin (- y)" by (intro round64_idem_pos[of "- x"]) simp_all
    then have "jneg (round64 y) = Fin (- y)" by (simp add: round64_minus)
    then show ?thesis by (cases "round64 y") simp_all
  qed
qed

text \<open>The rounding of binary64 has the four properties asked of a rounding.\<close>

lemma is_rounding_round64: "is_rounding round64"
  unfolding is_rounding_def
  using round64_mono round64_idem by simp

text \<open>Its accuracy: half a spacing, which is a relative error of at most \<open>2 ^ -53\<close> for a normal number.\<close>

lemma ulp64_half:
  assumes "x \<noteq> 0"
  shows "ulp64 x / 2 \<le> \<bar>x\<bar> / 2 ^ 53 + 1 / 2 ^ 1075"
proof (cases "2 powr (- 1022) \<le> \<bar>x\<bar>")
  case True
  then have "ulp64 x * 2 ^ 52 \<le> \<bar>x\<bar>" using expo64_lower[of x] by (simp only: ulp64_times')
  then have "ulp64 x / 2 \<le> \<bar>x\<bar> / 2 ^ 53" by (simp add: field_simps)
  moreover have "(0::real) \<le> 1 / 2 ^ 1075" by simp
  ultimately show ?thesis by linarith
next
  case False
  with assms have "expo64 x = - 1022" by (intro expo64_subnormal) simp_all
  then have "ulp64 x = 2 powr (- 1074)" by (simp add: ulp64_def)
  also have "\<dots> = 1 / 2 ^ 1074" by (simp add: powr_minus_divide)
  finally have "ulp64 x / 2 = 1 / 2 ^ 1075" by simp
  then show ?thesis by simp
qed

lemma accurate_round64: "accurate round64"
  unfolding accurate_def
proof (intro allI impI)
  fix x :: real
  assume bound: "\<bar>x\<bar> \<le> 10 ^ 10"
  show "\<exists>y. round64 x = Fin y \<and> \<bar>y - x\<bar> \<le> \<bar>x\<bar> / 2 ^ 53 + 1 / 2 ^ 1075"
  proof (cases "x = 0")
    case True
    then show ?thesis by simp
  next
    case False
    from nearest64_close[of x] ulp64_half[OF False]
    have close: "\<bar>nearest64 x - x\<bar> \<le> \<bar>x\<bar> / 2 ^ 53 + 1 / 2 ^ 1075" by linarith
    have "\<bar>x\<bar> / 2 ^ 53 + 1 / 2 ^ 1075 \<le> (1::real)"
    proof -
      from bound have "\<bar>x\<bar> / 2 ^ 53 \<le> 10 ^ 10 / 2 ^ 53" by (simp add: divide_right_mono)
      moreover have "(10 ^ 10 / 2 ^ 53 :: real) + 1 / 2 ^ 1075 \<le> 1" by simp
      ultimately show ?thesis by linarith
    qed
    with close bound have "\<bar>nearest64 x\<bar> \<le> 10 ^ 10 + 1" by linarith
    moreover have "(10 ^ 10 + 1 :: real) < 2 ^ 1024" by simp
    ultimately have "\<not> 2 ^ 1024 \<le> nearest64 x" "\<not> nearest64 x \<le> - (2 ^ 1024)" by linarith+
    with False have "round64 x = Fin (nearest64 x)" by (simp add: round64_def)
    with close show ?thesis by simp
  qed
qed

subsection \<open>Values of the rounding\<close>

lemma round64_overflow:
  assumes "2 ^ 1024 \<le> x"
  shows "round64 x = PInf"
proof -
  have p: "(0::real) < 2 ^ 1024" by simp
  with assms have x: "0 < x" by linarith
  from assms have "2 powr of_int 1024 \<le> x" by (simp only: pow1024)
  with expo64_upper[of x] x
  have "(2::real) powr of_int 1024 < 2 powr (of_int (expo64 x) + 1)" by simp
  then have "(of_int 1024 :: real) < of_int (expo64 x) + 1" by (simp only: two_powr_less)
  then have e: "1024 \<le> expo64 x" by linarith
  then have "- 1022 < expo64 x" by simp
  with x have "2 powr of_int (expo64 x) \<le> x" using expo64_lower'[of x] by simp
  with x have "2 powr of_int (expo64 x) \<le> nearest64 x" by (rule nearest64_lower)
  moreover from e have "(2::real) powr of_int 1024 \<le> 2 powr of_int (expo64 x)"
    by (simp only: two_powr_le of_int_le_iff)
  ultimately have "2 ^ 1024 \<le> nearest64 x" by (simp only: pow1024)
  with x show ?thesis by (simp only: round64_pos if_True)
qed

text \<open>
  A number of known binary exponent rounds to the nearest multiple of its spacing; a
  number that is such a multiple is a double.
\<close>

lemma round64_eval:
  assumes "2 powr of_int e \<le> \<bar>x\<bar>" and "\<bar>x\<bar> < 2 powr (of_int e + 1)" and "- 1022 \<le> e"
    and "rne (x / 2 powr (of_int e - 52)) = n"
    and "\<bar>of_int n * 2 powr (of_int e - 52) :: real\<bar> < 2 ^ 1024"
  shows "round64 x = Fin (of_int n * 2 powr (of_int e - 52))"
proof -
  have "0 < (2::real) powr of_int e" by simp
  with assms(1) have x: "x \<noteq> 0" by auto
  from assms(1-3) have "expo64 x = e" by (rule expo64_eq)
  then have "nearest64 x = of_int n * 2 powr (of_int e - 52)"
    using assms(4) by (simp add: nearest64_def ulp64_def)
  moreover from assms(5) have "\<not> (2 ^ 1024 :: real) \<le> of_int n * 2 powr (of_int e - 52)"
    "\<not> of_int n * 2 powr (of_int e - 52) \<le> - (2 ^ 1024 :: real)" by linarith+
  ultimately show ?thesis using x by (simp only: round64_def if_False)
qed

lemma round64_nat:
  assumes "m \<le> 2 ^ 53"
  shows "round64 (of_nat m) = Fin (of_nat m)"
proof (cases "m = 0")
  case True
  then show ?thesis by simp
next
  case False
  define x :: real where "x = of_nat m"
  from False have x1: "1 \<le> x" by (simp add: x_def)
  then have x: "0 < x" by simp
  from assms have x53: "x \<le> 2 ^ 53" unfolding x_def by (metis of_nat_le_iff of_nat_numeral of_nat_power)
  define e where "e = expo64 x"
  have "(2::real) powr (- 1022) \<le> 2 powr 0" by (simp only: two_powr_le)
  with x1 have normal: "2 powr (- 1022) \<le> \<bar>x\<bar>" by simp
  then have lo: "2 powr of_int e \<le> x" using expo64_lower[of x] x by (simp add: e_def)
  have hi: "x < 2 powr (of_int e + 1)" using expo64_upper[of x] x by (simp add: e_def)
  from x1 hi have "(2::real) powr 0 < 2 powr (of_int e + 1)" by simp
  then have "(0::real) < of_int e + 1" by (simp only: two_powr_less)
  then have e0: "0 \<le> e" by linarith
  from lo x53 have "(2::real) powr of_int e \<le> 2 powr 53" by simp
  then have "(of_int e :: real) \<le> 53" by (simp only: two_powr_le)
  then have e53: "e \<le> 53" by linarith
  have "\<exists>k. x / ulp64 x = of_int k"
  proof (cases "e = 53")
    case True
    with lo x53 have "x = 2 ^ 53" by simp
    moreover have "ulp64 x = 2" by (simp add: ulp64_def e_def[symmetric] True)
    ultimately have "x / ulp64 x = of_int (2 ^ 52)" by simp
    then show ?thesis ..
  next
    case False
    with e53 have le: "e \<le> 52" by simp
    from le have "of_int e - 52 = - real (nat (52 - e))" by simp
    then have "ulp64 x = 2 powr (- real (nat (52 - e)))" by (simp only: ulp64_def e_def)
    also have "\<dots> = 1 / 2 powr real (nat (52 - e))" by (rule powr_minus_divide)
    also have "\<dots> = 1 / 2 ^ nat (52 - e)" by (simp add: powr_realpow)
    finally have "x / ulp64 x = of_nat m * 2 ^ nat (52 - e)" by (simp add: x_def)
    then have "x / ulp64 x = of_int (int m * 2 ^ nat (52 - e))" by simp
    then show ?thesis ..
  qed
  then obtain k where "x / ulp64 x = of_int k" ..
  then have "nearest64 x = x" by (rule nearest64_exact)
  moreover have "x < 2 ^ 1024" using x53 by (rule le_less_trans) simp
  ultimately show ?thesis using x by (simp add: round64_pos x_def)
qed

lemma round64_numeral [simp]:
  "numeral k \<le> (2 ^ 53 :: nat) \<Longrightarrow> round64 (numeral k) = Fin (numeral k)"
  using round64_nat[of "numeral k"] by simp

lemma round64_one [simp]: "round64 1 = Fin 1"
  using round64_nat[of 1] by simp

lemma round64_neg_numeral [simp]:
  "numeral k \<le> (2 ^ 53 :: nat) \<Longrightarrow> round64 (- numeral k) = Fin (- numeral k)"
  by (simp add: round64_minus)

section \<open>Any rounding\<close>

lemma rnd_zero: "is_rounding rnd \<Longrightarrow> rnd 0 = Fin 0"
  by (simp add: is_rounding_def)

lemma rnd_not_NaN: "is_rounding rnd \<Longrightarrow> rnd x \<noteq> NaN"
  by (simp add: is_rounding_def)

lemma rnd_mono: "is_rounding rnd \<Longrightarrow> x \<le> y \<Longrightarrow> jle (rnd x) (rnd y)"
  by (simp add: is_rounding_def)

lemma rnd_idem: "is_rounding rnd \<Longrightarrow> rnd x = Fin y \<Longrightarrow> representable rnd y"
  by (auto simp add: is_rounding_def representable_def)

lemma representable_zero: "is_rounding rnd \<Longrightarrow> representable rnd 0"
  by (simp add: is_rounding_def representable_def)

lemma representable_clampMin0:
  "is_rounding rnd \<Longrightarrow> representable rnd x \<Longrightarrow> representable rnd (clampMin0 x)"
  by (simp add: clampMin0_def representable_zero)

text \<open>Between two numbers of the arithmetic a result rounds to a number between them.\<close>

lemma rnd_between:
  assumes R: "is_rounding rnd" and a: "representable rnd a" and b: "representable rnd b"
    and ax: "a \<le> x" and xb: "x \<le> b"
  shows "\<exists>d. rnd x = Fin d \<and> a \<le> d \<and> d \<le> b \<and> representable rnd d"
proof -
  from rnd_mono[OF R ax] a have lo: "jle (Fin a) (rnd x)" by (simp add: representable_def)
  from rnd_mono[OF R xb] b have hi: "jle (rnd x) (Fin b)" by (simp add: representable_def)
  from lo hi obtain d where d: "rnd x = Fin d" "a \<le> d" "d \<le> b"
    by (cases "rnd x") (simp_all add: jle_def)
  with rnd_idem[OF R d(1)] show ?thesis by blast
qed

lemma rnd_below:
  assumes R: "is_rounding rnd" and b: "representable rnd b" and xb: "x \<le> b"
  shows "rnd x = NInf \<or> (\<exists>d. rnd x = Fin d \<and> d \<le> b)"
proof -
  from rnd_mono[OF R xb] b have "jle (rnd x) (Fin b)" by (simp add: representable_def)
  then show ?thesis by (cases "rnd x") (simp_all add: jle_def)
qed



section \<open>The payment solver\<close>

lemma repaymentPayment_rate0:
  "0 < n \<Longrightarrow> repaymentPayment exact princ 0 n = Fin (princ / of_int n)"
  by (simp add: repaymentPayment_def)

lemma repaymentPayment_annuity:
  assumes r: "0 < rate" and n: "0 < n"
  shows "repaymentPayment exact princ rate n =
           Fin (princ * rate * (1 + rate) ^ nat n / ((1 + rate) ^ nat n - 1))"
proof -
  have "1 < (1 + rate) ^ nat n" using r n by (simp add: one_less_power)
  then have "(1 + rate) ^ nat n \<noteq> 1" by simp
  then show ?thesis using r n
    by (simp add: repaymentPayment_def js_pow_int Let_def mult.assoc)
qed

lemma repaymentPayment_finite:
  "0 \<le> rate \<Longrightarrow> 0 < n \<Longrightarrow> \<exists>p. repaymentPayment exact princ rate n = Fin p"
  by (cases "rate = 0") (simp_all add: repaymentPayment_rate0 repaymentPayment_annuity)

text \<open>The power, the overflow of the power, and the loss of a small rate.\<close>

lemma round64_absorbed: "round64 (1 + 1 / 2 ^ 60) = Fin 1"
  using round64_eval[of 0 "1 + 1 / 2 ^ 60" "2 ^ 52"]
  by (simp add: rne_def powr_minus_divide)

lemma js_pow_pos: "0 < x \<Longrightarrow> 0 < n \<Longrightarrow> js_pow rnd x (of_int n) = rnd (x ^ nat n)"
proof -
  assume x: "0 < x" and n: "0 < n"
  then have "x powr of_int n = x ^ nat n"
    by (metis less_le_not_le nat_0_le of_int_of_nat_eq powr_realpow)
  with x n show ?thesis by (simp add: js_pow_def)
qed

lemma repaymentPayment_overflow:
  assumes n: "0 < n" and r: "rate \<noteq> 0"
    and pow: "jpow rnd (jadd rnd (Fin 1) (Fin rate)) (of_int n) = PInf"
  shows "repaymentPayment rnd princ rate n = NaN"
proof -
  have "jmul rnd (Fin rate) PInf = PInf \<or> jmul rnd (Fin rate) PInf = NInf"
    using r by (simp add: inf_signed_def)
  then have "jmul rnd (Fin princ) (jmul rnd (Fin rate) PInf) \<in> {NaN, PInf, NInf}"
    by (auto simp add: inf_signed_def)
  moreover have "jsub rnd PInf (Fin 1) = PInf" by (simp add: jsub_def)
  ultimately have "jdiv rnd (jmul rnd (Fin princ) (jmul rnd (Fin rate) PInf))
      (jsub rnd PInf (Fin 1)) = NaN" by auto
  with n r pow show ?thesis by (simp add: repaymentPayment_def Let_def)
qed

lemma example_overflow_payment: "repaymentPayment round64 1000 1 1200 = NaN"
proof -
  have "jpow round64 (jadd round64 (Fin 1) (Fin 1)) (of_int 1200) = PInf"
    by (simp add: js_pow_pos[of 2 1200, simplified] round64_overflow)
  then show ?thesis by (intro repaymentPayment_overflow) simp_all
qed

lemma repaymentPayment_absorbed:
  assumes R: "is_rounding rnd" and n: "0 < n" and r: "0 < rate" and P: "0 < princ"
    and one: "rnd (1 + rate) = Fin 1"
  shows "repaymentPayment rnd princ rate n = PInf \<or> repaymentPayment rnd princ rate n = NaN"
proof -
  from rnd_idem[OF R one] have one': "rnd 1 = Fin 1" by (simp add: representable_def)
  from n have pow: "jpow rnd (rnd (1 + rate)) (of_int n) = Fin 1"
    by (simp add: one js_pow_pos[of 1 n rnd, simplified] one')
  have den: "jsub rnd (Fin 1) (Fin 1) = Fin 0" by (simp add: jsub_def rnd_zero[OF R])
  from r have "jle (rnd 0) (rnd (rate * 1))" by (intro rnd_mono[OF R]) simp
  then have "jle (Fin 0) (jmul rnd (Fin rate) (Fin 1))" by (simp add: rnd_zero[OF R])
  then consider a where "jmul rnd (Fin rate) (Fin 1) = Fin a" "0 \<le> a"
    | "jmul rnd (Fin rate) (Fin 1) = PInf"
    by (cases "jmul rnd (Fin rate) (Fin 1)") (simp_all add: jle_def)
  then have "jdiv rnd (jmul rnd (Fin princ) (jmul rnd (Fin rate) (Fin 1))) (Fin 0) = PInf \<or>
             jdiv rnd (jmul rnd (Fin princ) (jmul rnd (Fin rate) (Fin 1))) (Fin 0) = NaN"
  proof cases
    case 1
    from P 1(2) have "jle (rnd 0) (rnd (princ * a))" by (intro rnd_mono[OF R]) simp
    then have "jle (Fin 0) (rnd (princ * a))" by (simp add: rnd_zero[OF R])
    then show ?thesis unfolding 1(1)
      by (cases "rnd (princ * a)") (simp_all add: jle_def inf_signed_def)
  next
    case 2
    with P show ?thesis by (simp add: inf_signed_def)
  qed
  with n r show ?thesis by (simp add: repaymentPayment_def Let_def pow den)
qed

text \<open>
  C4, as amended. The payment solver returns not-a-number when the period count is at
  most 0 and the rounded quotient principal / n when the rate is 0. Otherwise it evaluates
  the annuity formula operation by operation: in exact arithmetic the result is
  principal * rate * (1 + rate)^n / ((1 + rate)^n - 1); under a rounding the result is
  not-a-number as soon as the power (1 + rate)^n overflows to infinity, and infinite or
  not-a-number as soon as 1 + rate rounds to 1.
\<close>

theorem repaymentPayment_cases:
  shows "(n \<le> 0 \<longrightarrow> repaymentPayment rnd princ rate n = NaN) \<and>
         (0 < n \<longrightarrow> repaymentPayment rnd princ 0 n = rnd (princ / of_int n)) \<and>
         (0 \<le> princ \<and> 0 \<le> rate \<longrightarrow>
            repaymentPayment exact princ rate n =
              (if n \<le> 0 then NaN
               else if rate = 0 then Fin (princ / of_int n)
               else Fin (princ * rate * (1 + rate) ^ nat n / ((1 + rate) ^ nat n - 1)))) \<and>
         (0 < n \<and> 0 < rate \<and> 0 < y \<and> rnd (1 + rate) = Fin y \<and> rnd (y ^ nat n) = PInf \<longrightarrow>
            repaymentPayment rnd princ rate n = NaN) \<and>
         (is_rounding rnd \<and> 0 < n \<and> 0 < rate \<and> 0 < princ \<and> rnd (1 + rate) = Fin 1 \<longrightarrow>
            repaymentPayment rnd princ rate n = PInf \<or> repaymentPayment rnd princ rate n = NaN)"
proof (intro conjI impI)
  assume "n \<le> 0"
  then show "repaymentPayment rnd princ rate n = NaN" by (simp add: repaymentPayment_def)
next
  assume "0 < n"
  then show "repaymentPayment rnd princ 0 n = rnd (princ / of_int n)"
    by (simp add: repaymentPayment_def)
next
  assume h: "0 \<le> princ \<and> 0 \<le> rate"
  show "repaymentPayment exact princ rate n =
              (if n \<le> 0 then NaN
               else if rate = 0 then Fin (princ / of_int n)
               else Fin (princ * rate * (1 + rate) ^ nat n / ((1 + rate) ^ nat n - 1)))"
  proof (cases "n \<le> 0")
    case True
    then show ?thesis by (simp add: repaymentPayment_def)
  next
    case False
    then show ?thesis using h
      by (cases "rate = 0") (simp_all add: repaymentPayment_rate0 repaymentPayment_annuity)
  qed
next
  assume h: "0 < n \<and> 0 < rate \<and> 0 < y \<and> rnd (1 + rate) = Fin y \<and> rnd (y ^ nat n) = PInf"
  then have "jpow rnd (jadd rnd (Fin 1) (Fin rate)) (of_int n) = PInf"
    by (simp add: js_pow_pos)
  with h show "repaymentPayment rnd princ rate n = NaN"
    by (intro repaymentPayment_overflow) simp_all
next
  assume "is_rounding rnd \<and> 0 < n \<and> 0 < rate \<and> 0 < princ \<and> rnd (1 + rate) = Fin 1"
  then show "repaymentPayment rnd princ rate n = PInf \<or> repaymentPayment rnd princ rate n = NaN"
    by (intro repaymentPayment_absorbed) simp_all
qed

theorem repaymentPayment_cases_witness:
  "repaymentPayment exact 1200 (1 / 100) 0 = NaN \<and>
   repaymentPayment exact 1200 0 3 = Fin 400 \<and>
   repaymentPayment exact 1200 (1 / 100) 2 = Fin (40804 / 67) \<and>
   round64 (1 + 1) = Fin 2 \<and> round64 (2 ^ nat 1200) = PInf \<and>
   repaymentPayment round64 1000 1 1200 = NaN \<and>
   is_rounding round64 \<and> round64 (1 + 1 / 2 ^ 60) = Fin 1 \<and>
   (repaymentPayment round64 1000 (1 / 2 ^ 60) 12 = PInf \<or>
    repaymentPayment round64 1000 (1 / 2 ^ 60) 12 = NaN)"
proof -
  have two: "round64 (1 + 1) = Fin 2" by simp
  have big: "round64 (2 ^ nat 1200) = PInf" by (rule round64_overflow) simp
  note t1 = repaymentPayment_cases [of 0 exact 1200 "1 / 100"]
  note t2 = repaymentPayment_cases [of 3 exact 1200 0]
  note t3 = repaymentPayment_cases [of 2 exact 1200 "1 / 100"]
  note t4 = repaymentPayment_cases [of 1200 round64 1000 1 2]
  note t5 = repaymentPayment_cases [of 12 round64 1000 "1 / 2 ^ 60"]
  from t1 have "repaymentPayment exact 1200 (1 / 100) 0 = NaN" by simp
  moreover from t2 have "repaymentPayment exact 1200 0 3 = Fin 400" by simp
  moreover from t3 have "repaymentPayment exact 1200 (1 / 100) 2 = Fin (40804 / 67)"
    by (simp add: power2_eq_square)
  moreover from t4 two big have "repaymentPayment round64 1000 1 1200 = NaN" by simp
  moreover from t5 is_rounding_round64 round64_absorbed
  have "repaymentPayment round64 1000 (1 / 2 ^ 60) 12 = PInf \<or>
        repaymentPayment round64 1000 (1 / 2 ^ 60) 12 = NaN" by simp
  ultimately show ?thesis using two big is_rounding_round64 round64_absorbed by simp
qed

text \<open>
  In binary64 the solver does not return the value of the annuity formula for a principal
  of 1000 at a periodic rate of 1 over 1200 periods: the power \<open>2 ^ 1200\<close> overflows and
  the quotient of two infinities is not a number, although the formula has a finite value.
\<close>

theorem repaymentPayment_overflow_counterexample:
  "(0::real) \<le> 1000 \<and> (0::real) \<le> 1 \<and>
   repaymentPayment round64 1000 1 1200 = NaN \<and>
   repaymentPayment round64 1000 1 1200
     \<noteq> Fin (1000 * 1 * (1 + 1) ^ nat 1200 / ((1 + 1) ^ nat 1200 - 1))"
  by (simp add: example_overflow_payment)

section \<open>The schedule builder\<close>

lemma buildSchedule_Inr:
  assumes "buildSchedule rnd p = Inr s"
  obtains ppy where "periodsPerYear (frequency p) = Inr ppy"
    and "nPeriods s = js_round (clampMin0 (years p) * ppy)"
    and "periodicRate s = clampMin0 (annualRatePct p) / 100 / ppy"
    and "payment s =
           (if ptype p = ''interestOnly''
            then jmul rnd (Fin (clampMin0 (principal p))) (Fin (periodicRate s))
            else repaymentPayment rnd (clampMin0 (principal p)) (periodicRate s) (nPeriods s))"
    and "schedule s =
           scheduleLoop rnd (ptype p) (payment s) (periodicRate s)
             (clampMin0 (nullish (offsetBalance p) 0)) (nPeriods s) 1
             (Fin (clampMin0 (principal p)))"
  using assms
  by (cases "periodsPerYear (frequency p)") (auto simp add: buildSchedule_def Let_def)

lemma buildSchedule_schedule:
  assumes "buildSchedule rnd p = Inr s"
  shows "schedule s =
           scheduleLoop rnd (ptype p) (payment s) (periodicRate s)
             (clampMin0 (nullish (offsetBalance p) 0)) (nPeriods s) 1
             (Fin (clampMin0 (principal p)))"
  using assms by (rule buildSchedule_Inr)

lemma buildSchedule_payment:
  assumes "buildSchedule rnd p = Inr s"
  shows "payment s =
           (if ptype p = ''interestOnly''
            then jmul rnd (Fin (clampMin0 (principal p))) (Fin (periodicRate s))
            else repaymentPayment rnd (clampMin0 (principal p)) (periodicRate s) (nPeriods s))"
  using assms by (rule buildSchedule_Inr)

lemma buildSchedule_ranges:
  assumes "buildSchedule rnd p = Inr s"
  shows "0 \<le> nPeriods s" and "0 \<le> periodicRate s"
proof -
  from assms obtain ppy where ppy: "periodsPerYear (frequency p) = Inr ppy"
    and n: "nPeriods s = js_round (clampMin0 (years p) * ppy)"
    and r: "periodicRate s = clampMin0 (annualRatePct p) / 100 / ppy"
    by (rule buildSchedule_Inr)
  from ppy have "0 < ppy" by (rule periodsPerYear_pos)
  then show "0 \<le> nPeriods s" and "0 \<le> periodicRate s"
    using n r by (simp_all add: js_round_nonneg clampMin0_nonneg)
qed

text \<open>The schedule builder succeeds on each of the three supported frequencies.\<close>

lemma buildSchedule_supported:
  assumes "frequency p = ''monthly'' \<or> frequency p = ''fortnightly'' \<or> frequency p = ''weekly''"
  shows "\<exists>s. buildSchedule rnd p = Inr s"
  using assms by (auto simp add: buildSchedule_def periodsPerYear_def Let_def)

lemma example_loan_run: "buildSchedule exact example_loan = Inr example_result"
  by (simp add: example_loan_def example_result_def buildSchedule_def periodsPerYear_def
      clampMin0_def js_round_def repaymentPayment_def scheduleRow_def Let_def js_pow_numeral
      power2_eq_square scheduleLoop.simps)

lemma example_interestOnly_run:
  "buildSchedule exact example_interestOnly = Inr example_interestOnly_result"
  by (simp add: example_interestOnly_def example_interestOnly_result_def example_loan_def
      buildSchedule_def periodsPerYear_def clampMin0_def js_round_def scheduleRow_def Let_def
      scheduleLoop.simps)

lemma example_fullOffset_run: "buildSchedule exact example_fullOffset = Inr example_fullOffset_result"
  by (simp add: example_fullOffset_def example_fullOffset_result_def example_loan_def
      buildSchedule_def periodsPerYear_def clampMin0_def js_round_def repaymentPayment_def
      scheduleRow_def Let_def js_pow_numeral power2_eq_square scheduleLoop.simps)

text \<open>One period of the loop on a finite payment and a finite balance.\<close>

lemma scheduleRow_Fin:
  "scheduleRow exact type (Fin p) rate offs period (Fin b) =
     \<lparr>row_period = period, row_payment = Fin p,
      row_interest = Fin (max 0 (b - max 0 offs) * rate),
      row_principalPaid =
        Fin (if type = ''interestOnly'' then 0
             else min b (max 0 (p - max 0 (b - max 0 offs) * rate))),
      row_balance =
        Fin (max 0 (b - (if type = ''interestOnly'' then 0
                         else min b (max 0 (p - max 0 (b - max 0 offs) * rate))))),
      row_effectivePrincipal = Fin (max 0 (b - max 0 offs))\<rparr>"
  by (simp add: scheduleRow_def Let_def min_def)

text \<open>The loop either stops at once or emits one row and goes on from the row's balance.\<close>

lemma scheduleLoop_stop:
  "\<not> period \<le> n \<or> jle bal (Fin 0) \<Longrightarrow> scheduleLoop rnd type pay rate offs n period bal = []"
  by (subst scheduleLoop.simps) auto

lemma scheduleLoop_step:
  "period \<le> n \<Longrightarrow> \<not> jle bal (Fin 0) \<Longrightarrow>
   scheduleLoop rnd type pay rate offs n period bal =
     scheduleRow rnd type pay rate offs period bal #
     scheduleLoop rnd type pay rate offs n (period + 1)
       (row_balance (scheduleRow rnd type pay rate offs period bal))"
  by (subst scheduleLoop.simps) (simp add: Let_def)

lemma scheduleLoop_nonempty:
  "scheduleLoop rnd type pay rate offs n period bal \<noteq> [] \<Longrightarrow> period \<le> n \<and> \<not> jle bal (Fin 0)"
  using scheduleLoop_stop by blast

lemma scheduleLoop_length:
  "int (length (scheduleLoop rnd type pay rate offs n period bal)) \<le> max 0 (n + 1 - period)"
proof (induction rnd type pay rate offs n period bal rule: scheduleLoop.induct)
  case (1 rnd type pay rate offs n period bal)
  show ?case
  proof (cases "period \<le> n \<and> \<not> jle bal (Fin 0)")
    case True
    with 1 show ?thesis by (simp add: scheduleLoop_step)
  next
    case False
    then show ?thesis by (simp add: scheduleLoop_stop)
  qed
qed

lemma scheduleLoop_stops:
  "Suc i < length (scheduleLoop rnd type pay rate offs n period bal) \<Longrightarrow>
   \<not> jle (row_balance (scheduleLoop rnd type pay rate offs n period bal ! i)) (Fin 0)"
proof (induction rnd type pay rate offs n period bal arbitrary: i rule: scheduleLoop.induct)
  case (1 rnd type pay rate offs n period bal)
  let ?row = "scheduleRow rnd type pay rate offs period bal"
  let ?rest = "scheduleLoop rnd type pay rate offs n (period + 1) (row_balance ?row)"
  from "1.prems" have "scheduleLoop rnd type pay rate offs n period bal \<noteq> []" by auto
  then have run: "period \<le> n" "\<not> jle bal (Fin 0)"
    by (simp_all add: scheduleLoop_nonempty)
  then have unfold: "scheduleLoop rnd type pay rate offs n period bal = ?row # ?rest"
    by (rule scheduleLoop_step)
  show ?case
  proof (cases i)
    case 0
    with "1.prems" unfold have "?rest \<noteq> []" by auto
    then have "\<not> jle (row_balance ?row) (Fin 0)"
      by (simp add: scheduleLoop_nonempty)
    with 0 unfold show ?thesis by simp
  next
    case (Suc j)
    with "1.prems" unfold have "Suc j < length ?rest" by simp
    then have "\<not> jle (row_balance (?rest ! j)) (Fin 0)"
      by (rule "1.IH"[OF run refl])
    with Suc unfold show ?thesis by simp
  qed
qed

text \<open>
  C6. The schedule never has more rows than the period count, and the loop stops as soon
  as the balance reaches 0: the balance of a row that is followed by another row is never 0.
\<close>

theorem schedule_termination:
  assumes "buildSchedule rnd p = Inr s"
  shows "int (length (schedule s)) \<le> nPeriods s \<and>
         (\<forall>i. Suc i < length (schedule s) \<longrightarrow> row_balance (schedule s ! i) \<noteq> Fin 0)"
proof -
  note sch = buildSchedule_schedule[OF assms]
  from assms have n: "0 \<le> nPeriods s" by (rule buildSchedule_ranges)
  have "int (length (schedule s)) \<le> max 0 (nPeriods s + 1 - 1)"
    unfolding sch by (rule scheduleLoop_length)
  with n have len: "int (length (schedule s)) \<le> nPeriods s" by simp
  have "row_balance (schedule s ! i) \<noteq> Fin 0" if "Suc i < length (schedule s)" for i
  proof -
    from that have "\<not> jle (row_balance (schedule s ! i)) (Fin 0)"
      unfolding sch by (rule scheduleLoop_stops)
    then show ?thesis by auto
  qed
  with len show ?thesis by blast
qed

theorem schedule_termination_witness:
  "buildSchedule exact example_loan = Inr example_result \<and>
   int (length (schedule example_result)) \<le> nPeriods example_result \<and>
   Suc 0 < length (schedule example_result) \<and>
   row_balance (schedule example_result ! 0) \<noteq> Fin 0"
  using schedule_termination [OF example_loan_run] example_loan_run
  by (simp add: example_result_def)

subsection \<open>Balances are never negative\<close>








text \<open>The first period of a schedule, whatever the payment.\<close>

lemma buildSchedule_first_row:
  assumes run: "buildSchedule rnd p = Inr s" and P: "0 < principal p" and n: "1 \<le> nPeriods s"
  shows "schedule s =
      scheduleRow rnd (ptype p) (payment s) (periodicRate s)
        (clampMin0 (nullish (offsetBalance p) 0)) 1 (Fin (principal p)) #
      scheduleLoop rnd (ptype p) (payment s) (periodicRate s)
        (clampMin0 (nullish (offsetBalance p) 0)) (nPeriods s) 2
        (row_balance (scheduleRow rnd (ptype p) (payment s) (periodicRate s)
           (clampMin0 (nullish (offsetBalance p) 0)) 1 (Fin (principal p))))"
proof -
  from P have cl: "clampMin0 (principal p) = principal p" by (simp add: clampMin0_def)
  have sch: "schedule s = scheduleLoop rnd (ptype p) (payment s) (periodicRate s)
      (clampMin0 (nullish (offsetBalance p) 0)) (nPeriods s) 1 (Fin (principal p))"
    using buildSchedule_schedule[OF run] by (simp add: cl)
  from n P have "schedule s =
      scheduleRow rnd (ptype p) (payment s) (periodicRate s)
        (clampMin0 (nullish (offsetBalance p) 0)) 1 (Fin (principal p)) #
      scheduleLoop rnd (ptype p) (payment s) (periodicRate s)
        (clampMin0 (nullish (offsetBalance p) 0)) (nPeriods s) (1 + 1)
        (row_balance (scheduleRow rnd (ptype p) (payment s) (periodicRate s)
           (clampMin0 (nullish (offsetBalance p) 0)) 1 (Fin (principal p))))"
    unfolding sch by (intro scheduleLoop_step) simp_all
  then show ?thesis by simp
qed

text \<open>
  The loan of 1000 at 1200 percent a year, repaid monthly over 100 years, in binary64:
  the periodic rate is 1, the power \<open>2 ^ 1200\<close> overflows and the payment is not a number.
\<close>

lemma schedule64_run:
  assumes "frequency p = ''monthly'' \<or> frequency p = ''fortnightly'' \<or> frequency p = ''weekly''"
  shows "buildSchedule round64 p = Inr (schedule64 p)"
  using buildSchedule_supported[OF assms, of round64] by (auto simp add: schedule64_def)

lemma example_overflow_run:
  shows "buildSchedule round64 (example_overflow\<lparr>offsetBalance := a\<rparr>)
     = Inr (schedule64 (example_overflow\<lparr>offsetBalance := a\<rparr>))"
  and "payment (schedule64 (example_overflow\<lparr>offsetBalance := a\<rparr>)) = NaN"
  and "periodicRate (schedule64 (example_overflow\<lparr>offsetBalance := a\<rparr>)) = 1"
  and "nPeriods (schedule64 (example_overflow\<lparr>offsetBalance := a\<rparr>)) = 1200"
proof -
  let ?p = "example_overflow\<lparr>offsetBalance := a\<rparr>"
  show s: "buildSchedule round64 ?p = Inr (schedule64 ?p)"
    by (rule schedule64_run) (simp add: example_overflow_def)
  then obtain ppy where ppy: "periodsPerYear (frequency ?p) = Inr ppy"
    and n: "nPeriods (schedule64 ?p) = js_round (clampMin0 (years ?p) * ppy)"
    and r: "periodicRate (schedule64 ?p) = clampMin0 (annualRatePct ?p) / 100 / ppy"
    by (rule buildSchedule_Inr)
  from ppy have "ppy = 12" by (simp add: example_overflow_def periodsPerYear_def)
  with n r show nr: "periodicRate (schedule64 ?p) = 1" "nPeriods (schedule64 ?p) = 1200"
    by (simp_all add: example_overflow_def clampMin0_def js_round_def)
  from buildSchedule_payment[OF s] nr show "payment (schedule64 ?p) = NaN"
    by (simp add: example_overflow_def clampMin0_def example_overflow_payment)
qed

lemma example_overflow_rows:
  "schedule (schedule64 (example_overflow\<lparr>offsetBalance := a\<rparr>)) =
     scheduleRow round64 ''repayment'' NaN 1 (clampMin0 (nullish a 0)) 1 (Fin 1000) #
     scheduleRow round64 ''repayment'' NaN 1 (clampMin0 (nullish a 0)) 2 NaN #
     scheduleLoop round64 ''repayment'' NaN 1 (clampMin0 (nullish a 0)) 1200 3
       (row_balance (scheduleRow round64 ''repayment'' NaN 1 (clampMin0 (nullish a 0)) 2 NaN))"
proof -
  let ?p = "example_overflow\<lparr>offsetBalance := a\<rparr>"
  have bal: "row_balance (scheduleRow round64 ''repayment'' NaN 1 offs 1 (Fin 1000)) = NaN" for offs
    by (simp add: scheduleRow_def Let_def jmax_def jgt_def)
  have P: "0 < principal ?p" and n: "1 \<le> nPeriods (schedule64 ?p)"
    by (simp_all add: example_overflow_run) (simp add: example_overflow_def)
  have f: "ptype ?p = ''repayment''" "principal ?p = 1000" "offsetBalance ?p = a"
    by (simp_all add: example_overflow_def)
  have "schedule (schedule64 ?p) =
      scheduleRow round64 ''repayment'' NaN 1 (clampMin0 (nullish a 0)) 1 (Fin 1000) #
      scheduleLoop round64 ''repayment'' NaN 1 (clampMin0 (nullish a 0)) 1200 2 NaN"
    using buildSchedule_first_row[OF example_overflow_run(1)[of a] P n]
    by (simp only: example_overflow_run f bal)
  also have "scheduleLoop round64 ''repayment'' NaN 1 (clampMin0 (nullish a 0)) 1200 2 NaN =
     scheduleRow round64 ''repayment'' NaN 1 (clampMin0 (nullish a 0)) 2 NaN #
     scheduleLoop round64 ''repayment'' NaN 1 (clampMin0 (nullish a 0)) 1200 (2 + 1)
       (row_balance (scheduleRow round64 ''repayment'' NaN 1 (clampMin0 (nullish a 0)) 2 NaN))"
    by (intro scheduleLoop_step) (simp_all add: jle_def)
  finally show ?thesis by simp
qed


subsection \<open>Interest-only loans\<close>

lemma scheduleLoop_interestOnly:
  "r \<in> set (scheduleLoop rnd ''interestOnly'' pay rate offs n period bal) \<Longrightarrow>
   row_principalPaid r = Fin 0"
proof (induction rnd "''interestOnly''" pay rate offs n period bal rule: scheduleLoop.induct)
  case (1 rnd pay rate offs n period bal)
  let ?row = "scheduleRow rnd ''interestOnly'' pay rate offs period bal"
  let ?rest = "scheduleLoop rnd ''interestOnly'' pay rate offs n (period + 1) (row_balance ?row)"
  from "1.prems" have "scheduleLoop rnd ''interestOnly'' pay rate offs n period bal \<noteq> []" by auto
  then have run: "period \<le> n" "\<not> jle bal (Fin 0)"
    by (simp_all add: scheduleLoop_nonempty)
  then have "scheduleLoop rnd ''interestOnly'' pay rate offs n period bal = ?row # ?rest"
    by (rule scheduleLoop_step)
  with "1.prems" consider "r = ?row" | "r \<in> set ?rest" by auto
  then show ?case
  proof cases
    case 1
    then show ?thesis by (simp add: scheduleRow_def Let_def)
  next
    case 2
    then show ?thesis by (rule "1.hyps"[OF run refl])
  qed
qed

text \<open>
  C9. For an interest-only loan the fixed payment is the product of the principal, floored
  at 0, and the periodic rate, whatever the offset balance, and every row pays 0 of the
  principal.
\<close>

theorem interestOnly_payment:
  assumes "ptype p = ''interestOnly''" and "buildSchedule rnd p = Inr s"
  shows "payment s = rnd (max 0 (principal p) * periodicRate s) \<and>
         (\<forall>r \<in> set (schedule s). row_principalPaid r = Fin 0)"
proof -
  from assms have "payment s = rnd (max 0 (principal p) * periodicRate s)"
    by (simp add: buildSchedule_payment clampMin0_max)
  moreover have "row_principalPaid r = Fin 0" if "r \<in> set (schedule s)" for r
    using that assms(1) unfolding buildSchedule_schedule[OF assms(2)]
    by (simp add: scheduleLoop_interestOnly)
  ultimately show ?thesis by blast
qed

theorem interestOnly_payment_witness:
  "ptype example_interestOnly = ''interestOnly'' \<and>
   buildSchedule exact example_interestOnly = Inr example_interestOnly_result \<and>
   payment example_interestOnly_result = Fin (1200 * (1 / 100)) \<and>
   row_interest (schedule example_interestOnly_result ! 0) = Fin (700 * (1 / 100)) \<and>
   schedule example_interestOnly_result ! 0 \<in> set (schedule example_interestOnly_result) \<and>
   row_principalPaid (schedule example_interestOnly_result ! 0) = Fin 0 \<and>
   row_principalPaid (schedule example_interestOnly_result ! 1) = Fin 0"
proof -
  have t: "ptype example_interestOnly = ''interestOnly''"
    by (simp add: example_interestOnly_def)
  from interestOnly_payment [OF t example_interestOnly_run] t example_interestOnly_run
  show ?thesis by (simp add: example_interestOnly_result_def)
qed

subsection \<open>An offset that covers the whole loan\<close>

lemma jdiv_representable:
  assumes "is_rounding rnd" and "jdiv rnd u v = Fin x"
  shows "representable rnd x"
  using assms
  by (cases u; cases v)
     (auto simp add: inf_signed_def representable_zero rnd_idem split: if_splits)

lemma repaymentPayment_representable:
  assumes "is_rounding rnd" and "repaymentPayment rnd princ rate n = Fin x"
  shows "representable rnd x"
proof (cases "rate = 0")
  case True
  with assms(2) have "jdiv rnd (Fin princ) (Fin (of_int n)) = Fin x"
    by (simp add: repaymentPayment_def split: if_splits)
  with assms(1) show ?thesis by (rule jdiv_representable)
next
  case False
  with assms(2) have "jdiv rnd
      (jmul rnd (Fin princ) (jmul rnd (Fin rate) (jpow rnd (jadd rnd (Fin 1) (Fin rate)) (of_int n))))
      (jsub rnd (jpow rnd (jadd rnd (Fin 1) (Fin rate)) (of_int n)) (Fin 1)) = Fin x"
    by (simp add: repaymentPayment_def Let_def split: if_splits)
  with assms(1) show ?thesis by (rule jdiv_representable)
qed

lemma repaymentPayment_pos:
  assumes "0 < princ" and "0 \<le> rate" and "0 < n"
  shows "\<exists>x. repaymentPayment exact princ rate n = Fin x \<and> 0 < x"
proof (cases "rate = 0")
  case True
  with assms show ?thesis by (simp add: repaymentPayment_rate0)
next
  case False
  with assms have r: "0 < rate" by simp
  then have "1 < (1 + rate) ^ nat n" using assms(3) by (simp add: one_less_power)
  with r assms(1) have "0 < princ * rate * (1 + rate) ^ nat n / ((1 + rate) ^ nat n - 1)"
    by simp
  with r assms(3) show ?thesis by (simp add: repaymentPayment_annuity)
qed

text \<open>One period when the offset covers the balance and the payment is positive.\<close>

lemma scheduleRow_fullOffset:
  assumes R: "is_rounding rnd" and type: "type \<noteq> ''interestOnly''"
    and pay: "pay = PInf \<or> (\<exists>x. pay = Fin x \<and> 0 < x \<and> representable rnd x)"
    and b: "representable rnd b" "0 < b" "b \<le> max 0 offs"
  shows "\<exists>q c. scheduleRow rnd type pay rate offs period (Fin b) =
           \<lparr>row_period = period, row_payment = pay, row_interest = Fin 0,
            row_principalPaid = Fin q, row_balance = Fin c, row_effectivePrincipal = Fin 0\<rparr> \<and>
           0 < q \<and> q \<le> b \<and> (Fin q = pay \<or> q = b) \<and> rnd (b - q) = Fin c \<and>
           0 \<le> c \<and> c \<le> b \<and> representable rnd c"
proof -
  from b(3) have "b - max 0 offs \<le> 0" by simp
  from rnd_below[OF R representable_zero[OF R] this]
  have eff: "effectivePrincipal rnd (Fin b) (Fin offs) = Fin 0"
    by (auto simp add: effectivePrincipal_def jsub_def jmax_def)
  have int: "jmul rnd (Fin 0) (Fin rate) = Fin 0" by (simp add: rnd_zero[OF R])
  define pp where "pp = (let pp = jmax (Fin 0) (jsub rnd pay (Fin 0))
                         in if jgt pp (Fin b) then Fin b else pp)"
  from pay have "\<exists>q. pp = Fin q \<and> 0 < q \<and> q \<le> b \<and> (Fin q = pay \<or> q = b)"
  proof
    assume "pay = PInf"
    with b(2) show ?thesis by (simp add: pp_def jsub_def jmax_def jgt_def)
  next
    assume "\<exists>x. pay = Fin x \<and> 0 < x \<and> representable rnd x"
    then obtain x where x: "pay = Fin x" "0 < x" "rnd x = Fin x"
      by (auto simp add: representable_def)
    with b(2) show ?thesis by (simp add: pp_def jsub_def jmax_def jgt_def)
  qed
  then obtain q where q: "pp = Fin q" "0 < q" "q \<le> b" "Fin q = pay \<or> q = b" by blast
  from q(2,3) have "0 \<le> b - q" "b - q \<le> b" by simp_all
  from rnd_between[OF R representable_zero[OF R] b(1) this]
  obtain c where c: "rnd (b - q) = Fin c" "0 \<le> c" "c \<le> b" "representable rnd c" by blast
  then have nb: "jmax (Fin 0) (jsub rnd (Fin b) (Fin q)) = Fin c"
    by (simp add: jsub_def)
  have "scheduleRow rnd type pay rate offs period (Fin b) =
      \<lparr>row_period = period, row_payment = pay, row_interest = Fin 0,
       row_principalPaid = pp, row_balance = jmax (Fin 0) (jsub rnd (Fin b) pp),
       row_effectivePrincipal = Fin 0\<rparr>"
    using type by (simp add: scheduleRow_def Let_def eff rnd_zero[OF R] pp_def)
  with q c nb show ?thesis by auto
qed

lemma scheduleLoop_fullOffset:
  assumes R: "is_rounding rnd" and type: "type \<noteq> ''interestOnly''"
    and pay: "pay = PInf \<or> (\<exists>x. pay = Fin x \<and> 0 < x \<and> representable rnd x)"
    and b: "representable rnd b" "b \<le> max 0 offs"
    and i: "i < length (scheduleLoop rnd type pay rate offs n period (Fin b))"
  shows "row_effectivePrincipal (scheduleLoop rnd type pay rate offs n period (Fin b) ! i) = Fin 0 \<and>
         row_interest (scheduleLoop rnd type pay rate offs n period (Fin b) ! i) = Fin 0 \<and>
         (\<exists>b' q. balance_before (Fin b) (scheduleLoop rnd type pay rate offs n period (Fin b)) i
                    = Fin b' \<and>
                 row_principalPaid (scheduleLoop rnd type pay rate offs n period (Fin b) ! i)
                    = Fin q \<and>
                 0 < q \<and> q \<le> b' \<and> (Fin q = pay \<or> q = b') \<and>
                 row_balance (scheduleLoop rnd type pay rate offs n period (Fin b) ! i)
                    = rnd (b' - q))"
  using b i
proof (induction i arbitrary: period b)
  case 0
  let ?L = "scheduleLoop rnd type pay rate offs n period (Fin b)"
  let ?row = "scheduleRow rnd type pay rate offs period (Fin b)"
  from "0.prems" have "?L \<noteq> []" by auto
  then have run: "period \<le> n" "\<not> jle (Fin b) (Fin 0)"
    by (simp_all add: scheduleLoop_nonempty del: jle_Fin)
  then have pos: "0 < b" by simp
  from run have L: "?L ! 0 = ?row" by (simp add: scheduleLoop_step del: jle_Fin)
  from scheduleRow_fullOffset[OF R type pay "0.prems"(1) pos "0.prems"(2), of rate period]
  show ?case unfolding L by (auto simp add: balance_before_def)
next
  case (Suc j)
  let ?L = "scheduleLoop rnd type pay rate offs n period (Fin b)"
  let ?row = "scheduleRow rnd type pay rate offs period (Fin b)"
  from Suc.prems have "?L \<noteq> []" by auto
  then have run: "period \<le> n" "\<not> jle (Fin b) (Fin 0)"
    by (simp_all add: scheduleLoop_nonempty del: jle_Fin)
  then have pos: "0 < b" by simp
  from scheduleRow_fullOffset[OF R type pay Suc.prems(1) pos Suc.prems(2), of rate period]
  obtain c where c: "row_balance ?row = Fin c" "c \<le> b" "representable rnd c" by auto
  let ?rest = "scheduleLoop rnd type pay rate offs n (period + 1) (Fin c)"
  from run have L: "?L = ?row # ?rest"
    using scheduleLoop_step c(1) by metis
  from c(2) Suc.prems(2) have le: "c \<le> max 0 offs" by simp
  from Suc.prems(3) have j: "j < length ?rest" unfolding L by simp
  have before: "balance_before (Fin b) (?row # ?rest) (Suc j) = balance_before (Fin c) ?rest j"
    by (cases j) (simp_all add: balance_before_def c(1))
  from Suc.IH[OF c(3) le j] show ?case unfolding L before by simp
qed

text \<open>
  C5, as amended. Take a repayment loan whose offset balance is at least the principal,
  under any rounding for which the principal is a number of the arithmetic. In exact
  arithmetic a schedule with a row has a positive payment. Whenever the payment is
  positive (finite or infinite), every row has effective principal 0 and interest 0 and
  pays a positive amount of principal: the whole fixed payment, or the whole balance in a
  row that brings the balance to 0; and the balance of the row is the balance before it
  (the floored principal, or the balance of the row before) minus the principal it pays.
\<close>

theorem full_offset:
  assumes "is_rounding rnd" and "representable rnd (principal p)"
    and "ptype p \<noteq> ''interestOnly''" and "buildSchedule rnd p = Inr s"
    and "principal p \<le> nullish (offsetBalance p) 0"
  shows "(rnd = exact \<and> schedule s \<noteq> [] \<longrightarrow> jlt (Fin 0) (payment s)) \<and>
         (jlt (Fin 0) (payment s) \<longrightarrow>
            (\<forall>i. i < length (schedule s) \<longrightarrow>
               row_effectivePrincipal (schedule s ! i) = Fin 0 \<and>
               row_interest (schedule s ! i) = Fin 0 \<and>
               jlt (Fin 0) (row_principalPaid (schedule s ! i)) \<and>
               (row_principalPaid (schedule s ! i) = payment s \<or>
                row_principalPaid (schedule s ! i)
                  = balance_before (Fin (max 0 (principal p))) (schedule s) i \<and>
                row_balance (schedule s ! i) = Fin 0) \<and>
               row_balance (schedule s ! i) =
                 jsub rnd (balance_before (Fin (max 0 (principal p))) (schedule s) i)
                   (row_principalPaid (schedule s ! i))))"
proof (rule conjI)
  note sch = buildSchedule_schedule[OF assms(4)]
  show "rnd = exact \<and> schedule s \<noteq> [] \<longrightarrow> jlt (Fin 0) (payment s)"
  proof (rule impI)
  assume h: "rnd = exact \<and> schedule s \<noteq> []"
  then have "schedule s \<noteq> []" by simp
  then have "1 \<le> nPeriods s" and "\<not> jle (Fin (clampMin0 (principal p))) (Fin 0)"
    unfolding sch by (simp_all add: scheduleLoop_nonempty del: jle_Fin)
  then have n: "0 < nPeriods s" and P: "0 < clampMin0 (principal p)" by simp_all
  from assms(4) have "0 \<le> periodicRate s" by (rule buildSchedule_ranges)
  with P n obtain x where
    "repaymentPayment exact (clampMin0 (principal p)) (periodicRate s) (nPeriods s) = Fin x"
    and "0 < x"
    using repaymentPayment_pos by blast
  with assms(3) h show "jlt (Fin 0) (payment s)"
    by (simp add: buildSchedule_payment[OF assms(4)])
  qed
next
  show "jlt (Fin 0) (payment s) \<longrightarrow>
            (\<forall>i. i < length (schedule s) \<longrightarrow>
               row_effectivePrincipal (schedule s ! i) = Fin 0 \<and>
               row_interest (schedule s ! i) = Fin 0 \<and>
               jlt (Fin 0) (row_principalPaid (schedule s ! i)) \<and>
               (row_principalPaid (schedule s ! i) = payment s \<or>
                row_principalPaid (schedule s ! i)
                  = balance_before (Fin (max 0 (principal p))) (schedule s) i \<and>
                row_balance (schedule s ! i) = Fin 0) \<and>
               row_balance (schedule s ! i) =
                 jsub rnd (balance_before (Fin (max 0 (principal p))) (schedule s) i)
                   (row_principalPaid (schedule s ! i)))"
  proof (intro impI allI)
  fix i
  note R = assms(1)
  note sch = buildSchedule_schedule[OF assms(4)]
  assume pos: "jlt (Fin 0) (payment s)" and i: "i < length (schedule s)"
  have pay: "payment s = PInf \<or> (\<exists>x. payment s = Fin x \<and> 0 < x \<and> representable rnd x)"
  proof (cases "payment s")
    case (Fin x)
    with assms(3) have "repaymentPayment rnd (clampMin0 (principal p)) (periodicRate s)
        (nPeriods s) = Fin x"
      by (simp add: buildSchedule_payment[OF assms(4)])
    with R have "representable rnd x" by (rule repaymentPayment_representable)
    with Fin pos show ?thesis by simp
  qed (use pos in simp_all)
  from assms(1,2) have rep: "representable rnd (clampMin0 (principal p))"
    by (rule representable_clampMin0)
  from assms(5) have le: "clampMin0 (principal p) \<le> max 0 (clampMin0 (nullish (offsetBalance p) 0))"
    by (simp add: clampMin0_def)
  from i have i': "i < length (scheduleLoop rnd (ptype p) (payment s) (periodicRate s)
             (clampMin0 (nullish (offsetBalance p) 0)) (nPeriods s) 1
             (Fin (clampMin0 (principal p))))"
    unfolding sch .
  note full = scheduleLoop_fullOffset[OF R assms(3) pay rep le i', folded sch]
  from full obtain b q where e: "row_effectivePrincipal (schedule s ! i) = Fin 0"
    and n: "row_interest (schedule s ! i) = Fin 0"
    and bb: "balance_before (Fin (max 0 (principal p))) (schedule s) i = Fin b"
    and pp: "row_principalPaid (schedule s ! i) = Fin q"
    and q: "0 < q" "q \<le> b" "Fin q = payment s \<or> q = b"
    and nb: "row_balance (schedule s ! i) = rnd (b - q)"
    unfolding clampMin0_max by blast
  from q(3) nb have "Fin q = payment s \<or> q = b \<and> row_balance (schedule s ! i) = Fin 0"
    by (auto simp add: rnd_zero[OF R])
  with e n bb pp q nb
  show "row_effectivePrincipal (schedule s ! i) = Fin 0 \<and>
        row_interest (schedule s ! i) = Fin 0 \<and>
        jlt (Fin 0) (row_principalPaid (schedule s ! i)) \<and>
        (row_principalPaid (schedule s ! i) = payment s \<or>
         row_principalPaid (schedule s ! i)
           = balance_before (Fin (max 0 (principal p))) (schedule s) i \<and>
         row_balance (schedule s ! i) = Fin 0) \<and>
        row_balance (schedule s ! i) =
          jsub rnd (balance_before (Fin (max 0 (principal p))) (schedule s) i)
            (row_principalPaid (schedule s ! i))"
    by (auto simp add: jsub_def)
  qed
qed

theorem full_offset_witness:
  "is_rounding exact \<and> representable exact (principal example_fullOffset) \<and>
   ptype example_fullOffset \<noteq> ''interestOnly'' \<and>
   buildSchedule exact example_fullOffset = Inr example_fullOffset_result \<and>
   principal example_fullOffset \<le> nullish (offsetBalance example_fullOffset) 0 \<and>
   schedule example_fullOffset_result \<noteq> [] \<and>
   jlt (Fin 0) (payment example_fullOffset_result) \<and>
   1 < length (schedule example_fullOffset_result) \<and>
   row_effectivePrincipal (schedule example_fullOffset_result ! 1) = Fin 0 \<and>
   row_interest (schedule example_fullOffset_result ! 1) = Fin 0 \<and>
   jlt (Fin 0) (row_principalPaid (schedule example_fullOffset_result ! 1)) \<and>
   row_principalPaid (schedule example_fullOffset_result ! 0) =
     payment example_fullOffset_result \<and>
   row_principalPaid (schedule example_fullOffset_result ! 1) =
     row_balance (schedule example_fullOffset_result ! 0) \<and>
   row_balance (schedule example_fullOffset_result ! 1) = Fin 0 \<and>
   row_balance (schedule example_fullOffset_result ! 0) =
     jsub exact (Fin (max 0 (principal example_fullOffset)))
       (row_principalPaid (schedule example_fullOffset_result ! 0))"
proof -
  have t: "ptype example_fullOffset \<noteq> ''interestOnly''"
    and le: "principal example_fullOffset \<le> nullish (offsetBalance example_fullOffset) 0"
    by (simp_all add: example_fullOffset_def example_loan_def)
  have ne: "schedule example_fullOffset_result \<noteq> []"
    and len: "1 < length (schedule example_fullOffset_result)"
    by (simp_all add: example_fullOffset_result_def)
  note main = full_offset [OF is_rounding_exact representable_exact t example_fullOffset_run le]
  from main ne have pos: "jlt (Fin 0) (payment example_fullOffset_result)" by simp
  from main pos len
  have "row_effectivePrincipal (schedule example_fullOffset_result ! 1) = Fin 0 \<and>
        row_interest (schedule example_fullOffset_result ! 1) = Fin 0 \<and>
        jlt (Fin 0) (row_principalPaid (schedule example_fullOffset_result ! 1))"
    by simp
  with is_rounding_exact representable_exact [of "principal example_fullOffset"]
    t example_fullOffset_run le ne pos len
  show ?thesis
    by (simp add: example_fullOffset_result_def example_fullOffset_def example_loan_def)
qed

lemma example_overflow_offset_eq:
  "example_overflow_offset = example_overflow\<lparr>offsetBalance := Some 2000\<rparr>"
  by (simp add: example_overflow_offset_def)

text \<open>
  In binary64, the loan of 1000 at a periodic rate of 1 over 1200 periods with 2000 in
  the offset account: the payment is not a number, the first row pays a principal that is
  not a number (so not above 0), and the effective principal of the second row is not a
  number (so not 0).
\<close>

theorem full_offset_overflow_counterexample:
  "ptype example_overflow_offset \<noteq> ''interestOnly'' \<and>
   principal example_overflow_offset \<le> nullish (offsetBalance example_overflow_offset) 0 \<and>
   0 < principal example_overflow_offset \<and>
   buildSchedule round64 example_overflow_offset = Inr (schedule64 example_overflow_offset) \<and>
   1 \<le> nPeriods (schedule64 example_overflow_offset) \<and>
   payment (schedule64 example_overflow_offset) = NaN \<and>
   1 < length (schedule (schedule64 example_overflow_offset)) \<and>
   row_principalPaid (schedule (schedule64 example_overflow_offset) ! 0) = NaN \<and>
   \<not> jlt (Fin 0) (row_principalPaid (schedule (schedule64 example_overflow_offset) ! 0)) \<and>
   row_effectivePrincipal (schedule (schedule64 example_overflow_offset) ! 1) = NaN \<and>
   row_effectivePrincipal (schedule (schedule64 example_overflow_offset) ! 1) \<noteq> Fin 0 \<and>
   row_interest (schedule (schedule64 example_overflow_offset) ! 1) \<noteq> Fin 0"
proof -
  note run = example_overflow_run[of "Some 2000", folded example_overflow_offset_eq]
  note rows = example_overflow_rows[of "Some 2000", folded example_overflow_offset_eq]
  have f: "ptype example_overflow_offset \<noteq> ''interestOnly''"
    "principal example_overflow_offset \<le> nullish (offsetBalance example_overflow_offset) 0"
    "0 < principal example_overflow_offset"
    by (simp_all add: example_overflow_offset_def example_overflow_def)
  have len: "1 < length (schedule (schedule64 example_overflow_offset))"
    by (simp add: rows)
  have r0: "row_principalPaid (schedule (schedule64 example_overflow_offset) ! 0) = NaN"
    by (simp add: rows scheduleRow_def Let_def jmax_def jgt_def)
  have r1: "row_effectivePrincipal (schedule (schedule64 example_overflow_offset) ! 1) = NaN"
    "row_interest (schedule (schedule64 example_overflow_offset) ! 1) = NaN"
    by (simp_all add: rows scheduleRow_def effectivePrincipal_def Let_def jmax_def)
  from f run(1,2,4) len show ?thesis by (simp only: r0 r1) simp
qed

subsection \<open>The solver's payment amortizes the loan\<close>

text \<open>
  With no offset, the loop follows any sequence of balances in which each payment covers
  the interest and does not exceed the balance.
\<close>

lemma scheduleLoop_follows:
  assumes "type \<noteq> ''interestOnly''" and "offs \<le> 0"
    and "int j = n + 1 - period"
    and "\<forall>k<j. 0 < B k \<and> 0 \<le> x - B k * rate \<and> x - B k * rate \<le> B k \<and>
               B (Suc k) = B k - (x - B k * rate)"
  shows "length (scheduleLoop exact type (Fin x) rate offs n period (Fin (B 0))) = j \<and>
         (0 < j \<longrightarrow> row_balance (last (scheduleLoop exact type (Fin x) rate offs n period (Fin (B 0))))
                     = Fin (B j)) \<and>
         jsum (map row_principalPaid (scheduleLoop exact type (Fin x) rate offs n period (Fin (B 0))))
           = Fin (B 0 - B j)"
  using assms(3,4)
proof (induction j arbitrary: period B)
  case 0
  then have "\<not> period \<le> n" by simp
  then show ?case by (simp add: scheduleLoop_stop)
next
  case (Suc j)
  let ?row = "scheduleRow exact type (Fin x) rate offs period (Fin (B 0))"
  let ?rest = "scheduleLoop exact type (Fin x) rate offs n (period + 1) (Fin (B 1))"
  from Suc.prems(2) have b0: "0 < B 0" "0 \<le> x - B 0 * rate" "x - B 0 * rate \<le> B 0"
    "B 1 = B 0 - (x - B 0 * rate)" by simp_all
  from assms(2) b0(1) have eff: "max 0 (B 0 - max 0 offs) = B 0" by simp
  from b0 have pp: "min (B 0) (max 0 (x - B 0 * rate)) = x - B 0 * rate" by simp
  from b0 have nb: "max 0 (B 0 - (x - B 0 * rate)) = B 1" by simp
  have row: "row_principalPaid ?row = Fin (x - B 0 * rate)" "row_balance ?row = Fin (B 1)"
    using assms(1) by (simp_all add: scheduleRow_Fin eff pp nb)
  from Suc.prems(1) b0(1) have "period \<le> n" "\<not> jle (Fin (B 0)) (Fin 0)" by simp_all
  then have unfold: "scheduleLoop exact type (Fin x) rate offs n period (Fin (B 0)) = ?row # ?rest"
    using row(2) scheduleLoop_step by metis
  from Suc.prems(1) have j: "int j = n + 1 - (period + 1)" by simp
  from Suc.prems(2) have B': "\<forall>k<j. 0 < B (Suc k) \<and> 0 \<le> x - B (Suc k) * rate \<and>
      x - B (Suc k) * rate \<le> B (Suc k) \<and> B (Suc (Suc k)) = B (Suc k) - (x - B (Suc k) * rate)"
  proof (intro allI impI)
    fix k assume "k < j"
    then have "Suc k < Suc j" by simp
    with Suc.prems(2) show "0 < B (Suc k) \<and> 0 \<le> x - B (Suc k) * rate \<and>
      x - B (Suc k) * rate \<le> B (Suc k) \<and> B (Suc (Suc k)) = B (Suc k) - (x - B (Suc k) * rate)"
      by blast
  qed
  from Suc.IH[of "period + 1" "\<lambda>k. B (Suc k)", OF j B']
  have IH: "length ?rest = j" "0 < j \<longrightarrow> row_balance (last ?rest) = Fin (B (Suc j))"
    "jsum (map row_principalPaid ?rest) = Fin (B 1 - B (Suc j))" by simp_all
  have "row_balance (last (?row # ?rest)) = Fin (B (Suc j))"
  proof (cases "j = 0")
    case True
    with IH(1) row(2) show ?thesis by simp
  next
    case False
    with IH(1) have "?rest \<noteq> []" by auto
    with False IH(2) show ?thesis by simp
  qed
  moreover have "jsum (map row_principalPaid (?row # ?rest)) = Fin (B 0 - B (Suc j))"
    using row(1) IH(3) b0(4) by simp
  ultimately show ?case using IH(1) unfold by simp
qed

text \<open>
  The balance still owed after k payments, in closed form: with interest, and at rate 0.
\<close>

lemma annuity_balances:
  fixes P r :: real and n :: nat
  assumes P: "0 < P" and r: "0 < r" and n: "0 < n"
    and x_def: "x = P * r * (1 + r) ^ n / ((1 + r) ^ n - 1)"
    and B_def: "B = (\<lambda>k. P * ((1 + r) ^ n - (1 + r) ^ k) / ((1 + r) ^ n - 1))"
  shows "B 0 = P" and "B n = 0"
    and "\<forall>k<n. 0 < B k \<and> 0 \<le> x - B k * r \<and> x - B k * r \<le> B k \<and>
               B (Suc k) = B k - (x - B k * r)"
proof -
  define D where "D = (1 + r) ^ n - 1"
  note x_def = x_def[folded D_def] and B_def = B_def[folded D_def]
  have D: "0 < D" using r n by (simp add: D_def one_less_power)
  then show "B 0 = P" by (simp add: B_def D_def)
  show "B n = 0" by (simp add: B_def)
  show "\<forall>k<n. 0 < B k \<and> 0 \<le> x - B k * r \<and> x - B k * r \<le> B k \<and>
               B (Suc k) = B k - (x - B k * r)"
  proof (intro allI impI)
    fix k assume k: "k < n"
    have lt: "(1 + r) ^ k < (1 + r) ^ n" using r k by (simp add: power_strict_increasing)
    have le: "(1 + r) ^ Suc k \<le> (1 + r) ^ n"
      using r k by (intro power_increasing) simp_all
    have pos: "0 < B k" using P D lt by (simp add: B_def)
    have diff: "x - B k * r = P * r * (1 + r) ^ k / D"
      using D by (simp add: x_def B_def field_simps)
    have step: "B (Suc k) = B k - (x - B k * r)"
      unfolding diff using D by (simp add: B_def field_simps)
    have "0 \<le> B (Suc k)" using P D le by (simp add: B_def del: power_Suc)
    with step have cap: "x - B k * r \<le> B k" by simp
    have "0 \<le> P * r * (1 + r) ^ k / D" using P r D by simp
    with diff pos cap step
    show "0 < B k \<and> 0 \<le> x - B k * r \<and> x - B k * r \<le> B k \<and>
               B (Suc k) = B k - (x - B k * r)" by simp
  qed
qed

lemma straight_line_balances:
  fixes P :: real and n :: nat
  assumes P: "0 < P" and n: "0 < n"
    and x_def: "x = P / real n"
    and B_def: "B = (\<lambda>k. P * (real n - real k) / real n)"
  shows "B 0 = P" and "B n = 0"
    and "\<forall>k<n. 0 < B k \<and> 0 \<le> x - B k * 0 \<and> x - B k * 0 \<le> B k \<and>
               B (Suc k) = B k - (x - B k * 0)"
proof -
  show "B 0 = P" using n by (simp add: B_def)
  show "B n = 0" by (simp add: B_def)
  show "\<forall>k<n. 0 < B k \<and> 0 \<le> x - B k * 0 \<and> x - B k * 0 \<le> B k \<and>
               B (Suc k) = B k - (x - B k * 0)"
  proof (intro allI impI)
    fix k assume k: "k < n"
    have pos: "0 < B k" using P n k by (simp add: B_def)
    have step: "B (Suc k) = B k - x" using n by (simp add: B_def x_def field_simps)
    have "0 \<le> B (Suc k)" using P n k by (simp add: B_def)
    with step have "x \<le> B k" by simp
    moreover have "0 \<le> x" using P n by (simp add: x_def)
    ultimately show "0 < B k \<and> 0 \<le> x - B k * 0 \<and> x - B k * 0 \<le> B k \<and>
               B (Suc k) = B k - (x - B k * 0)" using pos step by simp
  qed
qed

lemma scheduleLoop_amortizes:
  assumes type: "type \<noteq> ''interestOnly''" and offs: "offs \<le> 0"
    and P: "0 < P" and r: "0 \<le> rate" and n: "1 \<le> n"
  shows "length (scheduleLoop exact type (repaymentPayment exact P rate n) rate offs n 1 (Fin P)) = nat n \<and>
         row_balance (last (scheduleLoop exact type (repaymentPayment exact P rate n) rate offs n 1 (Fin P)))
           = Fin 0 \<and>
         jsum (map row_principalPaid
                 (scheduleLoop exact type (repaymentPayment exact P rate n) rate offs n 1 (Fin P)))
           = Fin P"
proof -
  from n have j: "int (nat n) = n + 1 - 1" and n0: "0 < nat n" "0 < n" by simp_all
  have "\<exists>x B. repaymentPayment exact P rate n = Fin x \<and> B 0 = P \<and> B (nat n) = 0 \<and>
          (\<forall>k<nat n. 0 < B k \<and> 0 \<le> x - B k * rate \<and> x - B k * rate \<le> B k \<and>
               B (Suc k) = B k - (x - B k * rate))"
  proof (cases "rate = 0")
    case True
    define x where "x = P / real (nat n)"
    define B where "B = (\<lambda>k. P * (real (nat n) - real k) / real (nat n))"
    note facts = straight_line_balances[OF P n0(1) x_def B_def]
    from n0(2) True have "repaymentPayment exact P rate n = Fin x"
      by (simp add: repaymentPayment_rate0 x_def)
    with facts True show ?thesis by blast
  next
    case False
    with r have r': "0 < rate" by simp
    define x where "x = P * rate * (1 + rate) ^ nat n / ((1 + rate) ^ nat n - 1)"
    define B where "B = (\<lambda>k. P * ((1 + rate) ^ nat n - (1 + rate) ^ k) / ((1 + rate) ^ nat n - 1))"
    note facts = annuity_balances[OF P r' n0(1) x_def B_def]
    from r' n0(2) have "repaymentPayment exact P rate n = Fin x"
      unfolding x_def by (rule repaymentPayment_annuity)
    with facts show ?thesis by blast
  qed
  then obtain x B where pay: "repaymentPayment exact P rate n = Fin x"
    and B0: "B 0 = P" and Bn: "B (nat n) = 0"
    and steps: "\<forall>k<nat n. 0 < B k \<and> 0 \<le> x - B k * rate \<and> x - B k * rate \<le> B k \<and>
               B (Suc k) = B k - (x - B k * rate)"
    by blast
  from scheduleLoop_follows[OF type offs j steps] n0(1) show ?thesis
    unfolding pay B0 Bn by simp
qed

text \<open>
  C1. In exact arithmetic, for a repayment loan with positive principal, no offset and
  at least one period, the payment of the solver amortizes the principal exactly: the
  schedule runs for the whole term, the balance of its last row is 0 and the principal
  paid over all rows adds up to the principal.
\<close>

theorem payment_amortizes:
  assumes "ptype p \<noteq> ''interestOnly''" and "0 < principal p"
    and "nullish (offsetBalance p) 0 = 0"
    and "buildSchedule exact p = Inr s" and "1 \<le> nPeriods s"
  shows "payment s = repaymentPayment exact (principal p) (periodicRate s) (nPeriods s) \<and>
         length (schedule s) = nat (nPeriods s) \<and> schedule s \<noteq> [] \<and>
         row_balance (last (schedule s)) = Fin 0 \<and>
         jsum (map row_principalPaid (schedule s)) = Fin (principal p)"
proof -
  from assms(2) have P: "clampMin0 (principal p) = principal p" by (simp add: clampMin0_def)
  from assms(3) have offs: "clampMin0 (nullish (offsetBalance p) 0) \<le> 0"
    by (simp add: clampMin0_def)
  from assms(4) have r: "0 \<le> periodicRate s" by (rule buildSchedule_ranges)
  from assms(1) have pay: "payment s = repaymentPayment exact (principal p) (periodicRate s) (nPeriods s)"
    by (simp add: buildSchedule_payment[OF assms(4)] P)
  have sch: "schedule s =
      scheduleLoop exact (ptype p) (repaymentPayment exact (principal p) (periodicRate s) (nPeriods s))
        (periodicRate s) (clampMin0 (nullish (offsetBalance p) 0)) (nPeriods s) 1
        (Fin (principal p))"
    using buildSchedule_schedule[OF assms(4)] by (simp add: pay P)
  from scheduleLoop_amortizes[OF assms(1) offs assms(2) r assms(5)]
  have "length (schedule s) = nat (nPeriods s)"
    and "row_balance (last (schedule s)) = Fin 0"
    and "jsum (map row_principalPaid (schedule s)) = Fin (principal p)"
    unfolding sch by simp_all
  moreover from this(1) assms(5) have "schedule s \<noteq> []" by auto
  ultimately show ?thesis using pay by simp
qed

theorem payment_amortizes_witness:
  "ptype example_loan \<noteq> ''interestOnly'' \<and> 0 < principal example_loan \<and>
   nullish (offsetBalance example_loan) 0 = 0 \<and>
   buildSchedule exact example_loan = Inr example_result \<and> 1 \<le> nPeriods example_result \<and>
   payment example_result = repaymentPayment exact 1200 (1 / 100) 2 \<and>
   length (schedule example_result) = 2 \<and>
   row_balance (last (schedule example_result)) = Fin 0 \<and>
   jsum (map row_principalPaid (schedule example_result)) = Fin 1200"
proof -
  have h: "ptype example_loan \<noteq> ''interestOnly''" "0 < principal example_loan"
    "nullish (offsetBalance example_loan) 0 = 0"
    by (simp_all add: example_loan_def)
  have n: "1 \<le> nPeriods example_result" by (simp add: example_result_def)
  from payment_amortizes [OF h example_loan_run n] h example_loan_run n show ?thesis
    by (simp add: example_result_def example_loan_def)
qed

subsection \<open>The offset balance and the interest\<close>

lemma buildSchedule_offset_indep:
  assumes "buildSchedule rnd (p\<lparr>offsetBalance := a\<rparr>) = Inr s"
    and "buildSchedule rnd (p\<lparr>offsetBalance := b\<rparr>) = Inr t"
  shows "payment t = payment s" and "periodicRate t = periodicRate s"
    and "nPeriods t = nPeriods s"
  using assms
  by (cases "periodsPerYear (frequency p)"; auto simp add: buildSchedule_def Let_def)+

lemma buildSchedule_same_clamped_offset:
  assumes "clampMin0 (nullish a 0) = clampMin0 (nullish b 0)"
  shows "buildSchedule rnd (p\<lparr>offsetBalance := a\<rparr>) = buildSchedule rnd (p\<lparr>offsetBalance := b\<rparr>)"
  using assms by (simp add: buildSchedule_def)

text \<open>The order of the numbers, with the infinities at its ends.\<close>

lemma jle_simps:
  "jle NaN y = False" "jle x NaN = False"
  "jle NInf y = (y \<noteq> NaN)" "jle x PInf = (x \<noteq> NaN)"
  "jle PInf (Fin b) = False" "jle (Fin a) NInf = False" "jle PInf NInf = False"
  by (cases y; cases x; simp add: jle_def)+

lemma jlt_NaN_right: "jlt x NaN = False"
  by (cases x) simp_all

lemma jle_not_jlt: "jle x y \<Longrightarrow> \<not> jlt y x"
  by (simp add: jle_def)

lemma jmax_zero_mono:
  assumes "jle u v"
  shows "jle (jmax (Fin 0) u) (jmax (Fin 0) v)" and "jle (Fin 0) (jmax (Fin 0) u)"
  using assms by (cases u; cases v; simp add: jmax_def jle_simps)+

text \<open>The effective principal falls when the balance falls and the offset rises.\<close>

lemma effectivePrincipal_mono:
  assumes R: "is_rounding rnd" and b1: "representable rnd b1"
    and b: "0 \<le> b2" "b2 \<le> b1" and o: "o1 \<le> o2"
  shows "\<exists>e1 e2. effectivePrincipal rnd (Fin b1) (Fin o1) = Fin e1 \<and>
                 effectivePrincipal rnd (Fin b2) (Fin o2) = Fin e2 \<and>
                 0 \<le> e2 \<and> e2 \<le> e1 \<and> e1 \<le> b1"
proof -
  have le1: "b1 - max 0 o1 \<le> b1" by simp
  from b o have le2: "b2 - max 0 o2 \<le> b1 - max 0 o1" by simp
  from rnd_below[OF R b1 le1] have s1: "rnd (b1 - max 0 o1) = NInf \<or>
    (\<exists>d. rnd (b1 - max 0 o1) = Fin d \<and> d \<le> b1)" .
  from rnd_mono[OF R le2] have m: "jle (rnd (b2 - max 0 o2)) (rnd (b1 - max 0 o1))" .
  have z: "jmax (Fin 0) NInf = Fin 0" by (simp add: jmax_def)
  from s1 show ?thesis
  proof
    assume 1: "rnd (b1 - max 0 o1) = NInf"
    with m have "rnd (b2 - max 0 o2) = NInf"
      by (cases "rnd (b2 - max 0 o2)") (simp_all add: jle_simps)
    with 1 b show ?thesis by (simp add: effectivePrincipal_def jsub_def z)
  next
    assume "\<exists>d. rnd (b1 - max 0 o1) = Fin d \<and> d \<le> b1"
    then obtain d1 where 1: "rnd (b1 - max 0 o1) = Fin d1" "d1 \<le> b1" by blast
    from m 1 consider "rnd (b2 - max 0 o2) = NInf"
      | d2 where "rnd (b2 - max 0 o2) = Fin d2" "d2 \<le> d1"
      by (cases "rnd (b2 - max 0 o2)") (simp_all add: jle_simps)
    then show ?thesis
    proof cases
      case 1
      with \<open>rnd (b1 - max 0 o1) = Fin d1\<close> \<open>d1 \<le> b1\<close> b show ?thesis
        by (simp add: effectivePrincipal_def jsub_def z)
    next
      case 2
      with \<open>rnd (b1 - max 0 o1) = Fin d1\<close> \<open>d1 \<le> b1\<close> b show ?thesis
        by (simp add: effectivePrincipal_def jsub_def)
    qed
  qed
qed

text \<open>What is left of the payment after the interest falls when the interest rises.\<close>

lemma jsub_Fin_mono:
  assumes R: "is_rounding rnd" and "v1 \<noteq> NaN" and "v2 \<noteq> NaN" and "jle v2 v1"
  shows "jle (jsub rnd (Fin x) v1) (jsub rnd (Fin x) v2)"
proof (cases v1; cases v2)
  fix i1 i2
  assume v: "v1 = Fin i1" "v2 = Fin i2"
  with assms(4) have "x - i1 \<le> x - i2" by simp
  from rnd_mono[OF R this] show ?thesis unfolding v by (simp add: jsub_def)
qed (use assms(2-4) in \<open>simp_all add: jsub_def rnd_not_NaN[OF R] jle_simps\<close>)

lemma remainder_mono:
  assumes R: "is_rounding rnd" and "v1 \<noteq> NaN" and "v2 \<noteq> NaN" and "jle v2 v1"
  shows "jmax (Fin 0) (jsub rnd pay v1) = NaN \<or> jmax (Fin 0) (jsub rnd pay v2) = NaN \<or>
         jle (jmax (Fin 0) (jsub rnd pay v1)) (jmax (Fin 0) (jsub rnd pay v2)) \<and>
         jle (Fin 0) (jmax (Fin 0) (jsub rnd pay v1))"
proof (cases pay)
  case (Fin x)
  from jsub_Fin_mono[OF assms] have "jle (jsub rnd (Fin x) v1) (jsub rnd (Fin x) v2)" .
  then show ?thesis unfolding Fin by (simp add: jmax_zero_mono)
qed (use assms(2-4) in \<open>cases v1; cases v2; simp add: jsub_def jmax_def jle_simps\<close>)+

text \<open>The new balance falls when the balance falls and the remainder of the payment rises.\<close>

lemma newBalance_pair:
  assumes R: "is_rounding rnd" and rep: "representable rnd b1" "representable rnd b2"
    and q1: "0 \<le> q1" "q1 \<le> b1" and q2: "0 \<le> q2" "q2 \<le> b2"
    and le: "b2 - q2 \<le> b1 - q1"
  shows "\<exists>c1 c2. jmax (Fin 0) (jsub rnd (Fin b1) (Fin q1)) = Fin c1 \<and>
                 jmax (Fin 0) (jsub rnd (Fin b2) (Fin q2)) = Fin c2 \<and>
                 0 \<le> c2 \<and> c2 \<le> c1 \<and> representable rnd c1 \<and> representable rnd c2"
proof -
  from q1 have "0 \<le> b1 - q1" "b1 - q1 \<le> b1" by simp_all
  from rnd_between[OF R representable_zero[OF R] rep(1) this]
  obtain c1 where c1: "rnd (b1 - q1) = Fin c1" "0 \<le> c1" "representable rnd c1" by blast
  from q2 have "0 \<le> b2 - q2" "b2 - q2 \<le> b2" by simp_all
  from rnd_between[OF R representable_zero[OF R] rep(2) this]
  obtain c2 where c2: "rnd (b2 - q2) = Fin c2" "0 \<le> c2" "representable rnd c2" by blast
  from rnd_mono[OF R le] have "c2 \<le> c1" by (simp add: c1 c2)
  with c1 c2 show ?thesis by (simp add: jsub_def)
qed

lemma newBalance_mono:
  assumes R: "is_rounding rnd" and rep: "representable rnd b1" "representable rnd b2"
    and b: "0 \<le> b2" "b2 \<le> b1"
    and r: "r1 = NaN \<or> r2 = NaN \<or> jle r1 r2 \<and> jle (Fin 0) r1"
  shows "jmax (Fin 0) (jsub rnd (Fin b1) (if jgt r1 (Fin b1) then Fin b1 else r1)) = NaN \<or>
         jmax (Fin 0) (jsub rnd (Fin b2) (if jgt r2 (Fin b2) then Fin b2 else r2)) = NaN \<or>
         (\<exists>c1 c2.
            jmax (Fin 0) (jsub rnd (Fin b1) (if jgt r1 (Fin b1) then Fin b1 else r1)) = Fin c1 \<and>
            jmax (Fin 0) (jsub rnd (Fin b2) (if jgt r2 (Fin b2) then Fin b2 else r2)) = Fin c2 \<and>
            0 \<le> c2 \<and> c2 \<le> c1 \<and> representable rnd c1 \<and> representable rnd c2)"
proof -
  from b have b1: "0 \<le> b1" by simp
  consider "r1 = NaN" | "r2 = NaN"
    | x1 x2 where "r1 = Fin x1" "r2 = Fin x2" "0 \<le> x1" "x1 \<le> x2"
    | x1 where "r1 = Fin x1" "r2 = PInf" "0 \<le> x1"
    | "r1 = PInf" "r2 = PInf"
    using r by (cases r1; cases r2) (auto simp add: jle_simps)
  then show ?thesis
  proof cases
    case 1
    then show ?thesis by (simp add: jgt_def jmax_def)
  next
    case 2
    then show ?thesis by (simp add: jgt_def jmax_def)
  next
    case 3
    define q1 where "q1 = min b1 x1"
    define q2 where "q2 = min b2 x2"
    have p1: "(if jgt r1 (Fin b1) then Fin b1 else r1) = Fin q1"
      and p2: "(if jgt r2 (Fin b2) then Fin b2 else r2) = Fin q2"
      by (simp_all add: 3 q1_def q2_def min_def)
    from 3 b b1 have "0 \<le> q1" "q1 \<le> b1" "0 \<le> q2" "q2 \<le> b2" "b2 - q2 \<le> b1 - q1"
      by (simp_all add: q1_def q2_def min_def)
    from newBalance_pair[OF R rep this] show ?thesis unfolding p1 p2 by blast
  next
    case 4
    define q1 where "q1 = min b1 x1"
    have p1: "(if jgt r1 (Fin b1) then Fin b1 else r1) = Fin q1"
      and p2: "(if jgt r2 (Fin b2) then Fin b2 else r2) = Fin b2"
      by (simp_all add: 4 q1_def min_def jgt_def)
    from 4 b b1 have "0 \<le> q1" "q1 \<le> b1" "0 \<le> b2" "b2 \<le> b2" "b2 - b2 \<le> b1 - q1"
      by (simp_all add: q1_def min_def)
    from newBalance_pair[OF R rep this] show ?thesis unfolding p1 p2 by blast
  next
    case 5
    have p1: "(if jgt r1 (Fin b1) then Fin b1 else r1) = Fin b1"
      and p2: "(if jgt r2 (Fin b2) then Fin b2 else r2) = Fin b2"
      by (simp_all add: 5 jgt_def)
    from b b1 have "0 \<le> b1" "b1 \<le> b1" "0 \<le> b2" "b2 \<le> b2" "b2 - b2 \<le> b1 - b1"
      by simp_all
    from newBalance_pair[OF R rep this] show ?thesis unfolding p1 p2 by blast
  qed
qed

text \<open>Two periods side by side: the lower offset and the higher balance come first.\<close>

lemma scheduleRow_NaN:
  "row_interest (scheduleRow rnd type pay rate offs period NaN) = NaN"
  "row_balance (scheduleRow rnd type pay rate offs period NaN) = NaN"
  by (simp_all add: scheduleRow_def effectivePrincipal_def Let_def jmax_def)

lemma scheduleRow_mono:
  assumes R: "is_rounding rnd" and rate: "0 \<le> rate" and o: "o1 \<le> o2"
    and rep: "representable rnd b1" "representable rnd b2" and b: "0 \<le> b2" "b2 \<le> b1"
  shows "\<not> jlt (row_interest (scheduleRow rnd type pay rate o1 period (Fin b1)))
              (row_interest (scheduleRow rnd type pay rate o2 period (Fin b2)))"
    and "row_balance (scheduleRow rnd type pay rate o1 period (Fin b1)) = NaN \<or>
         row_balance (scheduleRow rnd type pay rate o2 period (Fin b2)) = NaN \<or>
         (\<exists>c1 c2. row_balance (scheduleRow rnd type pay rate o1 period (Fin b1)) = Fin c1 \<and>
                  row_balance (scheduleRow rnd type pay rate o2 period (Fin b2)) = Fin c2 \<and>
                  0 \<le> c2 \<and> c2 \<le> c1 \<and> representable rnd c1 \<and> representable rnd c2)"
proof -
  from effectivePrincipal_mono[OF R rep(1) b o]
  obtain e1 e2 where e: "effectivePrincipal rnd (Fin b1) (Fin o1) = Fin e1"
    "effectivePrincipal rnd (Fin b2) (Fin o2) = Fin e2" "0 \<le> e2" "e2 \<le> e1" by blast
  define v1 where "v1 = jmul rnd (Fin e1) (Fin rate)"
  define v2 where "v2 = jmul rnd (Fin e2) (Fin rate)"
  have nn: "v1 \<noteq> NaN" "v2 \<noteq> NaN" by (simp_all add: v1_def v2_def rnd_not_NaN[OF R])
  from e(4) rate have "e2 * rate \<le> e1 * rate" by (rule mult_right_mono)
  from rnd_mono[OF R this] have le: "jle v2 v1" by (simp add: v1_def v2_def)
  have i1: "row_interest (scheduleRow rnd type pay rate o1 period (Fin b1)) = v1"
    and i2: "row_interest (scheduleRow rnd type pay rate o2 period (Fin b2)) = v2"
    by (simp_all add: scheduleRow_def Let_def e v1_def v2_def)
  from le show "\<not> jlt (row_interest (scheduleRow rnd type pay rate o1 period (Fin b1)))
              (row_interest (scheduleRow rnd type pay rate o2 period (Fin b2)))"
    unfolding i1 i2 by (rule jle_not_jlt)
  define r1 where "r1 = (if type = ''interestOnly'' then Fin 0 else jmax (Fin 0) (jsub rnd pay v1))"
  define r2 where "r2 = (if type = ''interestOnly'' then Fin 0 else jmax (Fin 0) (jsub rnd pay v2))"
  from remainder_mono[OF R nn le, of pay]
  have r: "r1 = NaN \<or> r2 = NaN \<or> jle r1 r2 \<and> jle (Fin 0) r1"
    by (simp add: r1_def r2_def)
  from b have b1: "0 \<le> b1" by simp
  have n1: "row_balance (scheduleRow rnd type pay rate o1 period (Fin b1)) =
      jmax (Fin 0) (jsub rnd (Fin b1) (if jgt r1 (Fin b1) then Fin b1 else r1))"
    using b1 by (simp add: scheduleRow_def Let_def e r1_def v1_def)
  have n2: "row_balance (scheduleRow rnd type pay rate o2 period (Fin b2)) =
      jmax (Fin 0) (jsub rnd (Fin b2) (if jgt r2 (Fin b2) then Fin b2 else r2))"
    using b(1) by (simp add: scheduleRow_def Let_def e r2_def v2_def)
  from newBalance_mono[OF R rep b r]
  show "row_balance (scheduleRow rnd type pay rate o1 period (Fin b1)) = NaN \<or>
         row_balance (scheduleRow rnd type pay rate o2 period (Fin b2)) = NaN \<or>
         (\<exists>c1 c2. row_balance (scheduleRow rnd type pay rate o1 period (Fin b1)) = Fin c1 \<and>
                  row_balance (scheduleRow rnd type pay rate o2 period (Fin b2)) = Fin c2 \<and>
                  0 \<le> c2 \<and> c2 \<le> c1 \<and> representable rnd c1 \<and> representable rnd c2)"
    unfolding n1 n2 .
qed

lemma scheduleLoop_offset_mono:
  assumes R: "is_rounding rnd" and rate: "0 \<le> rate" and o: "o1 \<le> o2"
    and bal: "bal1 = NaN \<or> bal2 = NaN \<or>
       (\<exists>b1 b2. bal1 = Fin b1 \<and> bal2 = Fin b2 \<and> 0 \<le> b2 \<and> b2 \<le> b1 \<and>
                 representable rnd b1 \<and> representable rnd b2)"
    and i: "i < length (scheduleLoop rnd type pay rate o1 n period bal1)"
      "i < length (scheduleLoop rnd type pay rate o2 n period bal2)"
  shows "\<not> jlt (row_interest (scheduleLoop rnd type pay rate o1 n period bal1 ! i))
              (row_interest (scheduleLoop rnd type pay rate o2 n period bal2 ! i))"
  using bal i
proof (induction i arbitrary: period bal1 bal2)
  case 0
  let ?L1 = "scheduleLoop rnd type pay rate o1 n period bal1"
  let ?L2 = "scheduleLoop rnd type pay rate o2 n period bal2"
  from "0.prems" have "?L1 \<noteq> []" "?L2 \<noteq> []" by auto
  then have run: "period \<le> n" "\<not> jle bal1 (Fin 0)" "\<not> jle bal2 (Fin 0)"
    by (simp_all add: scheduleLoop_nonempty)
  then have L: "?L1 ! 0 = scheduleRow rnd type pay rate o1 period bal1"
    "?L2 ! 0 = scheduleRow rnd type pay rate o2 period bal2"
    by (simp_all add: scheduleLoop_step)
  from "0.prems"(1) show ?case unfolding L
    by (auto simp add: scheduleRow_NaN jlt_NaN_right scheduleRow_mono(1)[OF R rate o])
next
  case (Suc j)
  let ?L1 = "scheduleLoop rnd type pay rate o1 n period bal1"
  let ?L2 = "scheduleLoop rnd type pay rate o2 n period bal2"
  let ?r1 = "scheduleRow rnd type pay rate o1 period bal1"
  let ?r2 = "scheduleRow rnd type pay rate o2 period bal2"
  let ?rest1 = "scheduleLoop rnd type pay rate o1 n (period + 1) (row_balance ?r1)"
  let ?rest2 = "scheduleLoop rnd type pay rate o2 n (period + 1) (row_balance ?r2)"
  from Suc.prems have "?L1 \<noteq> []" "?L2 \<noteq> []" by auto
  then have run: "period \<le> n" "\<not> jle bal1 (Fin 0)" "\<not> jle bal2 (Fin 0)"
    by (simp_all add: scheduleLoop_nonempty)
  then have L: "?L1 = ?r1 # ?rest1" "?L2 = ?r2 # ?rest2"
    by (simp_all add: scheduleLoop_step)
  from Suc.prems(1)
  have next_bal: "row_balance ?r1 = NaN \<or> row_balance ?r2 = NaN \<or>
       (\<exists>b1 b2. row_balance ?r1 = Fin b1 \<and> row_balance ?r2 = Fin b2 \<and> 0 \<le> b2 \<and> b2 \<le> b1 \<and>
                 representable rnd b1 \<and> representable rnd b2)"
  proof (elim disjE exE conjE)
    fix b1 b2
    assume h: "bal1 = Fin b1" "bal2 = Fin b2" "0 \<le> b2" "b2 \<le> b1"
      "representable rnd b1" "representable rnd b2"
    from scheduleRow_mono(2)[OF R rate o h(5,6,3,4), of type pay period]
    show ?thesis unfolding h(1,2) .
  qed (simp_all add: scheduleRow_NaN)
  from Suc.prems(2,3) have j: "j < length ?rest1" "j < length ?rest2" unfolding L by simp_all
  from Suc.IH[OF next_bal j] show ?case unfolding L by simp
qed

text \<open>In exact arithmetic the interest falls strictly, unless it is 0 already.\<close>

lemma buildSchedule_payment_finite:
  assumes "buildSchedule exact p = Inr s" and "0 < nPeriods s"
  shows "\<exists>x. payment s = Fin x"
proof -
  from assms(1) have "0 \<le> periodicRate s" by (rule buildSchedule_ranges)
  with assms(2)
  have "\<exists>x. repaymentPayment exact (clampMin0 (principal p)) (periodicRate s) (nPeriods s) = Fin x"
    by (simp add: repaymentPayment_finite)
  then show ?thesis by (auto simp add: buildSchedule_payment[OF assms(1)])
qed

lemma interest_mono:
  fixes rate o1 o2 b1 b2 :: real
  assumes "0 \<le> rate" and "0 \<le> o1" and "o1 \<le> o2" and "b2 \<le> b1"
  defines "u \<equiv> max 0 (b1 - max 0 o1) * rate" and "v \<equiv> max 0 (b2 - max 0 o2) * rate"
  shows "v \<le> u" and "o1 < o2 \<Longrightarrow> v < u \<or> (u = 0 \<and> v = 0)"
proof -
  from assms(2-4) have e: "max 0 (b2 - max 0 o2) \<le> max 0 (b1 - max 0 o1)" by simp
  from e assms(1) show "v \<le> u" unfolding u_def v_def by (rule mult_right_mono)
  assume lt: "o1 < o2"
  show "v < u \<or> (u = 0 \<and> v = 0)"
  proof (cases "rate = 0 \<or> max 0 (b1 - max 0 o1) = 0")
    case True
    with e have "u = 0 \<and> v = 0" unfolding u_def v_def by auto
    then show ?thesis ..
  next
    case False
    with assms(1) have r: "0 < rate" and pos: "0 < max 0 (b1 - max 0 o1)" by auto
    from pos lt assms(2-4) have "max 0 (b2 - max 0 o2) < max 0 (b1 - max 0 o1)" by simp
    with r have "v < u" unfolding u_def v_def by simp
    then show ?thesis ..
  qed
qed

lemma balance_mono:
  fixes x u v b1 b2 :: real
  assumes "v \<le> u" and "b2 \<le> b1"
  shows "max 0 (b2 - (if io then 0 else min b2 (max 0 (x - v))))
           \<le> max 0 (b1 - (if io then 0 else min b1 (max 0 (x - u))))"
  using assms by (cases io) (simp_all add: min_def max_def)

lemma scheduleLoop_offset_strict:
  assumes "0 \<le> rate" and "0 \<le> o1" and "o1 \<le> o2" and "b2 \<le> b1"
    and "i < length (scheduleLoop exact type (Fin x) rate o1 n period (Fin b1))"
    and "i < length (scheduleLoop exact type (Fin x) rate o2 n period (Fin b2))"
  shows "\<exists>u v. row_interest (scheduleLoop exact type (Fin x) rate o1 n period (Fin b1) ! i) = Fin u \<and>
               row_interest (scheduleLoop exact type (Fin x) rate o2 n period (Fin b2) ! i) = Fin v \<and>
               v \<le> u \<and> (o1 < o2 \<longrightarrow> v < u \<or> (u = 0 \<and> v = 0))"
  using assms(4,5,6)
proof (induction i arbitrary: period b1 b2)
  case 0
  let ?L1 = "scheduleLoop exact type (Fin x) rate o1 n period (Fin b1)"
  let ?L2 = "scheduleLoop exact type (Fin x) rate o2 n period (Fin b2)"
  from "0.prems" have "?L1 \<noteq> []" "?L2 \<noteq> []" by auto
  then have run: "period \<le> n" "\<not> jle (Fin b1) (Fin 0)" "\<not> jle (Fin b2) (Fin 0)"
    by (simp_all add: scheduleLoop_nonempty del: jle_Fin)
  then have "row_interest (?L1 ! 0) = Fin (max 0 (b1 - max 0 o1) * rate)"
    and "row_interest (?L2 ! 0) = Fin (max 0 (b2 - max 0 o2) * rate)"
    by (simp_all add: scheduleLoop_step scheduleRow_Fin del: jle_Fin)
  with interest_mono[OF assms(1-3) "0.prems"(1)] show ?case by simp
next
  case (Suc j)
  let ?L1 = "scheduleLoop exact type (Fin x) rate o1 n period (Fin b1)"
  let ?L2 = "scheduleLoop exact type (Fin x) rate o2 n period (Fin b2)"
  let ?r1 = "scheduleRow exact type (Fin x) rate o1 period (Fin b1)"
  let ?r2 = "scheduleRow exact type (Fin x) rate o2 period (Fin b2)"
  define u where "u = max 0 (b1 - max 0 o1) * rate"
  define v where "v = max 0 (b2 - max 0 o2) * rate"
  define c1 where "c1 = max 0 (b1 - (if type = ''interestOnly'' then 0 else min b1 (max 0 (x - u))))"
  define c2 where "c2 = max 0 (b2 - (if type = ''interestOnly'' then 0 else min b2 (max 0 (x - v))))"
  from Suc.prems have "?L1 \<noteq> []" "?L2 \<noteq> []" by auto
  then have run: "period \<le> n" "\<not> jle (Fin b1) (Fin 0)" "\<not> jle (Fin b2) (Fin 0)"
    by (simp_all add: scheduleLoop_nonempty del: jle_Fin)
  have bal: "row_balance ?r1 = Fin c1" "row_balance ?r2 = Fin c2"
    by (simp_all add: scheduleRow_Fin c1_def c2_def u_def v_def)
  from run have L: "?L1 = ?r1 # scheduleLoop exact type (Fin x) rate o1 n (period + 1) (Fin c1)"
    "?L2 = ?r2 # scheduleLoop exact type (Fin x) rate o2 n (period + 1) (Fin c2)"
    using scheduleLoop_step bal by metis+
  have "v \<le> u" unfolding u_def v_def by (rule interest_mono[OF assms(1-3) Suc.prems(1)])
  then have "c2 \<le> c1" unfolding c1_def c2_def using Suc.prems(1) by (rule balance_mono)
  moreover from Suc.prems(2) have "j < length (scheduleLoop exact type (Fin x) rate o1 n (period + 1) (Fin c1))"
    unfolding L by simp
  moreover from Suc.prems(3) have "j < length (scheduleLoop exact type (Fin x) rate o2 n (period + 1) (Fin c2))"
    unfolding L by simp
  ultimately have "\<exists>u v. row_interest (scheduleLoop exact type (Fin x) rate o1 n (period + 1) (Fin c1) ! j) = Fin u \<and>
               row_interest (scheduleLoop exact type (Fin x) rate o2 n (period + 1) (Fin c2) ! j) = Fin v \<and>
               v \<le> u \<and> (o1 < o2 \<longrightarrow> v < u \<or> (u = 0 \<and> v = 0))"
    by (rule Suc.IH)
  then show ?case unfolding L by simp
qed

text \<open>The interest of the first period, whatever the payment.\<close>

lemma buildSchedule_first_interest:
  assumes run: "buildSchedule rnd (p\<lparr>offsetBalance := Some off\<rparr>) = Inr s"
    and P: "0 < principal p" and n: "1 \<le> nPeriods s"
  shows "schedule s \<noteq> []"
    and "row_interest (hd (schedule s)) =
           jmul rnd (effectivePrincipal rnd (Fin (principal p)) (Fin (clampMin0 off)))
             (Fin (periodicRate s))"
proof -
  from P have P': "0 < principal (p\<lparr>offsetBalance := Some off\<rparr>)" by simp
  note row = buildSchedule_first_row[OF run P' n]
  from row show "schedule s \<noteq> []" by simp
  show "row_interest (hd (schedule s)) =
           jmul rnd (effectivePrincipal rnd (Fin (principal p)) (Fin (clampMin0 off)))
             (Fin (periodicRate s))"
    by (subst row) (simp add: scheduleRow_def Let_def)
qed

text \<open>
  Two roundings on the way to each first-period interest: with a principal of at most
  \<open>10 ^ 9\<close> and a periodic rate of at most 1, the difference of the two interests is the
  offset times the rate to within \<open>3 * (10 ^ 9 / 2 ^ 53 + 2 ^ -1075)\<close>, less than \<open>10 ^ -6\<close>.
\<close>

lemma first_interest_accurate:
  assumes R: "is_rounding rnd" and A: "accurate rnd" and rep: "representable rnd P"
    and off: "0 \<le> off" "off < P" and P: "P \<le> 10 ^ 9" and r: "0 \<le> r" "r \<le> 1"
  shows "\<exists>u v. jmul rnd (effectivePrincipal rnd (Fin P) (Fin 0)) (Fin r) = Fin u \<and>
               jmul rnd (effectivePrincipal rnd (Fin P) (Fin off)) (Fin r) = Fin v \<and>
               \<bar>u - v - off * r\<bar> \<le> 1 / 10 ^ 6"
proof -
  define eps :: real where "eps = 10 ^ 9 / 2 ^ 53 + 1 / 2 ^ 1075"
  have acc: "\<exists>y. rnd x = Fin y \<and> \<bar>y - x\<bar> \<le> eps" if x: "\<bar>x\<bar> \<le> 10 ^ 9" for x
  proof -
    from x have "\<bar>x\<bar> \<le> 10 ^ 10" by simp
    with A obtain y where y: "rnd x = Fin y" "\<bar>y - x\<bar> \<le> \<bar>x\<bar> / 2 ^ 53 + 1 / 2 ^ 1075"
      unfolding accurate_def by blast
    from x have "\<bar>x\<bar> / 2 ^ 53 \<le> 10 ^ 9 / 2 ^ 53" by (simp add: divide_right_mono)
    with y show ?thesis unfolding eps_def by (intro exI[of _ y]) linarith
  qed
  from off have P0: "0 < P" by simp
  from rep P0 have eff0: "effectivePrincipal rnd (Fin P) (Fin 0) = Fin P"
    by (simp add: effectivePrincipal_def jsub_def representable_def)
  from P0 P r have "\<bar>P * r\<bar> \<le> 10 ^ 9"
    using mult_mono[of P "10 ^ 9" r 1] by (simp add: abs_mult)
  from acc[OF this] obtain u where u: "rnd (P * r) = Fin u" "\<bar>u - P * r\<bar> \<le> eps" by blast
  from off have "0 \<le> P - off" "P - off \<le> P" by simp_all
  from rnd_between[OF R representable_zero[OF R] rep this]
  obtain d where d: "rnd (P - off) = Fin d" "0 \<le> d" "d \<le> P" by blast
  from off P have "\<bar>P - off\<bar> \<le> 10 ^ 9" by simp
  from acc[OF this] d(1) have derr: "\<bar>d - (P - off)\<bar> \<le> eps" by simp
  from off d have eff1: "effectivePrincipal rnd (Fin P) (Fin off) = Fin d"
    by (simp add: effectivePrincipal_def jsub_def)
  from d P r have "\<bar>d * r\<bar> \<le> 10 ^ 9"
    using mult_mono[of d "10 ^ 9" r 1] by (simp add: abs_mult)
  from acc[OF this] obtain v where v: "rnd (d * r) = Fin v" "\<bar>v - d * r\<bar> \<le> eps" by blast
  have "\<bar>(d - (P - off)) * r\<bar> = \<bar>d - (P - off)\<bar> * r" using r by (simp add: abs_mult)
  also have "\<dots> \<le> eps * 1"
    using derr r by (intro mult_mono) simp_all
  finally have third: "\<bar>(d - (P - off)) * r\<bar> \<le> eps" by simp
  have "u - v - off * r = (u - P * r) - (v - d * r) - (d - (P - off)) * r"
    by (simp add: algebra_simps)
  then have "\<bar>u - v - off * r\<bar> \<le> \<bar>u - P * r\<bar> + \<bar>v - d * r\<bar> + \<bar>(d - (P - off)) * r\<bar>"
    by linarith
  with u(2) v(2) third have "\<bar>u - v - off * r\<bar> \<le> 3 * eps" by linarith
  moreover have "3 * eps \<le> 1 / 10 ^ 6"
  proof -
    have "(1::real) / 2 ^ 1075 \<le> 1 / 2 ^ 53" by simp
    then have "3 * eps \<le> 3 * (10 ^ 9 / 2 ^ 53 + 1 / 2 ^ 53)" unfolding eps_def by simp
    also have "\<dots> \<le> (1::real) / 10 ^ 6" by simp
    finally show ?thesis .
  qed
  ultimately have "\<bar>u - v - off * r\<bar> \<le> 1 / 10 ^ 6" by linarith
  with u(1) v(1) show ?thesis by (simp add: eff0 eff1)
qed

text \<open>
  C3, as amended. Fix the principal (a number of the arithmetic), the rate, the term, the
  frequency and the type, and raise the offset balance. Under any rounding the interest
  of a period present in both schedules does not rise. In exact arithmetic it falls
  strictly, or stays equal where it is 0 or where both offsets are at or below 0 (where
  the builder clamps them to 0). Whenever 0 \<le> offsetBalance < principal and there is a
  first period, the first-period interest is lower than with a zero offset by the offset
  balance times the periodic rate: exactly so in exact arithmetic, and to within
  \<open>10 ^ -6\<close> under a rounding as accurate as binary64 when the principal is at most
  \<open>10 ^ 9\<close> and the periodic rate at most 1.
\<close>

theorem offset_monotone:
  assumes R: "is_rounding rnd" and rep: "representable rnd (principal p)"
    and z: "buildSchedule rnd (p\<lparr>offsetBalance := Some 0\<rparr>) = Inr s0"
    and a: "buildSchedule rnd (p\<lparr>offsetBalance := Some off1\<rparr>) = Inr s1"
    and b: "buildSchedule rnd (p\<lparr>offsetBalance := Some off2\<rparr>) = Inr s2"
    and lt: "off1 < off2"
  shows "(\<forall>i. i < length (schedule s1) \<and> i < length (schedule s2) \<longrightarrow>
            \<not> jlt (row_interest (schedule s1 ! i)) (row_interest (schedule s2 ! i))) \<and>
         (rnd = exact \<longrightarrow>
            (\<forall>i. i < length (schedule s1) \<and> i < length (schedule s2) \<longrightarrow>
               jle (row_interest (schedule s2 ! i)) (row_interest (schedule s1 ! i)) \<and>
               (jlt (row_interest (schedule s2 ! i)) (row_interest (schedule s1 ! i)) \<or>
                row_interest (schedule s2 ! i) = row_interest (schedule s1 ! i) \<and>
                (row_interest (schedule s1 ! i) = Fin 0 \<or> off2 \<le> 0)))) \<and>
         (0 \<le> off2 \<and> off2 < principal p \<and> 1 \<le> nPeriods s0 \<longrightarrow>
            schedule s0 \<noteq> [] \<and> schedule s2 \<noteq> [] \<and>
            (rnd = exact \<longrightarrow>
               jsub exact (row_interest (hd (schedule s0))) (row_interest (hd (schedule s2)))
                 = Fin (off2 * periodicRate s2)) \<and>
            (accurate rnd \<and> principal p \<le> 10 ^ 9 \<and> periodicRate s2 \<le> 1 \<longrightarrow>
               (\<exists>u v. row_interest (hd (schedule s0)) = Fin u \<and>
                      row_interest (hd (schedule s2)) = Fin v \<and>
                      \<bar>u - v - off2 * periodicRate s2\<bar> \<le> 1 / 10 ^ 6)))"
proof (intro conjI)
  show "\<forall>i. i < length (schedule s1) \<and> i < length (schedule s2) \<longrightarrow>
            \<not> jlt (row_interest (schedule s1 ! i)) (row_interest (schedule s2 ! i))"
  proof (intro allI impI)
    fix i
    assume i: "i < length (schedule s1) \<and> i < length (schedule s2)"
    note same = buildSchedule_offset_indep[OF a b]
    have sch1: "schedule s1 = scheduleLoop rnd (ptype p) (payment s1) (periodicRate s1)
        (clampMin0 off1) (nPeriods s1) 1 (Fin (clampMin0 (principal p)))"
      using buildSchedule_schedule[OF a] by simp
    have sch2: "schedule s2 = scheduleLoop rnd (ptype p) (payment s1) (periodicRate s1)
        (clampMin0 off2) (nPeriods s1) 1 (Fin (clampMin0 (principal p)))"
      using buildSchedule_schedule[OF b] by (simp add: same)
    from a have r: "0 \<le> periodicRate s1" by (rule buildSchedule_ranges)
    from lt have le: "clampMin0 off1 \<le> clampMin0 off2" by (simp add: clampMin0_def)
    from R rep have "representable rnd (clampMin0 (principal p))"
      by (rule representable_clampMin0)
    then have start: "Fin (clampMin0 (principal p)) = NaN \<or> Fin (clampMin0 (principal p)) = NaN \<or>
       (\<exists>b1 b2. Fin (clampMin0 (principal p)) = Fin b1 \<and> Fin (clampMin0 (principal p)) = Fin b2 \<and>
                 0 \<le> b2 \<and> b2 \<le> b1 \<and> representable rnd b1 \<and> representable rnd b2)"
      by (simp add: clampMin0_nonneg)
    from i have "i < length (schedule s1)" and "i < length (schedule s2)" by simp_all
    then show "\<not> jlt (row_interest (schedule s1 ! i)) (row_interest (schedule s2 ! i))"
      unfolding sch1 sch2 by (rule scheduleLoop_offset_mono[OF R r le start])
  qed
next
  show "rnd = exact \<longrightarrow>
            (\<forall>i. i < length (schedule s1) \<and> i < length (schedule s2) \<longrightarrow>
               jle (row_interest (schedule s2 ! i)) (row_interest (schedule s1 ! i)) \<and>
               (jlt (row_interest (schedule s2 ! i)) (row_interest (schedule s1 ! i)) \<or>
                row_interest (schedule s2 ! i) = row_interest (schedule s1 ! i) \<and>
                (row_interest (schedule s1 ! i) = Fin 0 \<or> off2 \<le> 0)))"
  proof (intro allI impI)
    fix i
    assume e: "rnd = exact"
    assume i: "i < length (schedule s1) \<and> i < length (schedule s2)"
    note a = a[unfolded e] and b = b[unfolded e]
    note same = buildSchedule_offset_indep[OF a b]
    have "0 < nPeriods s1"
    proof (rule ccontr)
      assume "\<not> 0 < nPeriods s1"
      then have "schedule s1 = []"
        unfolding buildSchedule_schedule[OF a] by (simp add: scheduleLoop_stop)
      with i show False by simp
    qed
    with a obtain x where x: "payment s1 = Fin x"
      using buildSchedule_payment_finite by blast
    have sch1: "schedule s1 = scheduleLoop exact (ptype p) (Fin x) (periodicRate s1) (clampMin0 off1)
                  (nPeriods s1) 1 (Fin (clampMin0 (principal p)))"
      using buildSchedule_schedule[OF a] by (simp add: x)
    have sch2: "schedule s2 = scheduleLoop exact (ptype p) (Fin x) (periodicRate s1) (clampMin0 off2)
                  (nPeriods s1) 1 (Fin (clampMin0 (principal p)))"
      using buildSchedule_schedule[OF b] by (simp add: x same)
    from a have r: "0 \<le> periodicRate s1" by (rule buildSchedule_ranges)
    from lt have le: "clampMin0 off1 \<le> clampMin0 off2" by (simp add: clampMin0_def)
    from i have "i < length (schedule s1)" and "i < length (schedule s2)" by simp_all
    then obtain u v where u: "row_interest (schedule s1 ! i) = Fin u"
      and v: "row_interest (schedule s2 ! i) = Fin v" and vu: "v \<le> u"
      and strict: "clampMin0 off1 < clampMin0 off2 \<longrightarrow> v < u \<or> (u = 0 \<and> v = 0)"
      unfolding sch1 sch2
      using scheduleLoop_offset_strict[OF r clampMin0_nonneg le order_refl] by blast
    have "jlt (row_interest (schedule s2 ! i)) (row_interest (schedule s1 ! i)) \<or>
          row_interest (schedule s2 ! i) = row_interest (schedule s1 ! i) \<and>
          (row_interest (schedule s1 ! i) = Fin 0 \<or> off2 \<le> 0)"
    proof (cases "off2 \<le> 0")
      case True
      with lt have "clampMin0 (nullish (Some off1) 0) = clampMin0 (nullish (Some off2) 0)"
        by (simp add: clampMin0_def)
      then have "buildSchedule exact (p\<lparr>offsetBalance := Some off1\<rparr>)
                   = buildSchedule exact (p\<lparr>offsetBalance := Some off2\<rparr>)"
        by (rule buildSchedule_same_clamped_offset)
      with a b have "s1 = s2" by simp
      with True show ?thesis by simp
    next
      case False
      with lt have "clampMin0 off1 < clampMin0 off2" by (simp add: clampMin0_def)
      with strict have "v < u \<or> (u = 0 \<and> v = 0)" by simp
      with u v show ?thesis by auto
    qed
    with u v vu
    show "jle (row_interest (schedule s2 ! i)) (row_interest (schedule s1 ! i)) \<and>
          (jlt (row_interest (schedule s2 ! i)) (row_interest (schedule s1 ! i)) \<or>
           row_interest (schedule s2 ! i) = row_interest (schedule s1 ! i) \<and>
           (row_interest (schedule s1 ! i) = Fin 0 \<or> off2 \<le> 0))" by simp
  qed
next
  show "0 \<le> off2 \<and> off2 < principal p \<and> 1 \<le> nPeriods s0 \<longrightarrow>
            schedule s0 \<noteq> [] \<and> schedule s2 \<noteq> [] \<and>
            (rnd = exact \<longrightarrow>
               jsub exact (row_interest (hd (schedule s0))) (row_interest (hd (schedule s2)))
                 = Fin (off2 * periodicRate s2)) \<and>
            (accurate rnd \<and> principal p \<le> 10 ^ 9 \<and> periodicRate s2 \<le> 1 \<longrightarrow>
               (\<exists>u v. row_interest (hd (schedule s0)) = Fin u \<and>
                      row_interest (hd (schedule s2)) = Fin v \<and>
                      \<bar>u - v - off2 * periodicRate s2\<bar> \<le> 1 / 10 ^ 6))"
  proof (rule impI)
    assume h: "0 \<le> off2 \<and> off2 < principal p \<and> 1 \<le> nPeriods s0"
    then have P: "0 < principal p" and n0: "1 \<le> nPeriods s0" by simp_all
    note same = buildSchedule_offset_indep[OF z b]
    from n0 have n2: "1 \<le> nPeriods s2" by (simp add: same)
    from h have cl: "clampMin0 off2 = off2" "clampMin0 0 = 0" by (simp_all add: clampMin0_def)
    note i0 = buildSchedule_first_interest(2)[OF z P n0, unfolded cl]
    note i2 = buildSchedule_first_interest(2)[OF b P n2, unfolded cl]
    have ne: "schedule s0 \<noteq> []" "schedule s2 \<noteq> []"
      using buildSchedule_first_interest(1)[OF z P n0]
        buildSchedule_first_interest(1)[OF b P n2] by simp_all
    have ex: "jsub exact (row_interest (hd (schedule s0))) (row_interest (hd (schedule s2)))
                 = Fin (off2 * periodicRate s2)" if e: "rnd = exact"
      using h P unfolding i0 i2 e by (simp add: same algebra_simps)
    have ac: "\<exists>u v. row_interest (hd (schedule s0)) = Fin u \<and>
                      row_interest (hd (schedule s2)) = Fin v \<and>
                      \<bar>u - v - off2 * periodicRate s2\<bar> \<le> 1 / 10 ^ 6"
      if g: "accurate rnd \<and> principal p \<le> 10 ^ 9 \<and> periodicRate s2 \<le> 1"
    proof -
      from b have r: "0 \<le> periodicRate s2" by (rule buildSchedule_ranges)
      from g h first_interest_accurate[OF R _ rep _ _ _ r, of off2]
      show ?thesis unfolding i0 i2 by (simp add: same)
    qed
    from ne ex ac show "schedule s0 \<noteq> [] \<and> schedule s2 \<noteq> [] \<and>
            (rnd = exact \<longrightarrow>
               jsub exact (row_interest (hd (schedule s0))) (row_interest (hd (schedule s2)))
                 = Fin (off2 * periodicRate s2)) \<and>
            (accurate rnd \<and> principal p \<le> 10 ^ 9 \<and> periodicRate s2 \<le> 1 \<longrightarrow>
               (\<exists>u v. row_interest (hd (schedule s0)) = Fin u \<and>
                      row_interest (hd (schedule s2)) = Fin v \<and>
                      \<bar>u - v - off2 * periodicRate s2\<bar> \<le> 1 / 10 ^ 6))"
      by blast
  qed
qed

lemma example_offset0_run:
  "buildSchedule exact (example_loan\<lparr>offsetBalance := Some 0\<rparr>) = Inr example_result"
  by (simp add: example_result_def example_loan_def
      buildSchedule_def periodsPerYear_def clampMin0_def js_round_def repaymentPayment_def
      scheduleRow_def Let_def js_pow_numeral power2_eq_square scheduleLoop.simps)

lemma example_offset500_run:
  "buildSchedule exact (example_loan\<lparr>offsetBalance := Some 500\<rparr>) = Inr example_offset500_result"
  by (simp add: example_offset500_result_def example_loan_def
      buildSchedule_def periodsPerYear_def clampMin0_def js_round_def repaymentPayment_def
      scheduleRow_def Let_def js_pow_numeral power2_eq_square scheduleLoop.simps)

lemma example_offset800_run:
  "buildSchedule exact (example_loan\<lparr>offsetBalance := Some 800\<rparr>) = Inr example_offset800_result"
  by (simp add: example_offset800_result_def example_loan_def
      buildSchedule_def periodsPerYear_def clampMin0_def js_round_def repaymentPayment_def
      scheduleRow_def Let_def js_pow_numeral power2_eq_square scheduleLoop.simps)

text \<open>The first-period interest of the loan of 1000 at a periodic rate of 1, in binary64.\<close>

lemma example_overflow_first_interest:
  "row_interest (hd (schedule (schedule64 (example_overflow\<lparr>offsetBalance := Some 0\<rparr>))))
     = Fin 1000"
  "row_interest (hd (schedule (schedule64 (example_overflow\<lparr>offsetBalance := Some 500\<rparr>))))
     = Fin 500"
  by (simp_all add: example_overflow_rows scheduleRow_def effectivePrincipal_def Let_def
      jsub_def clampMin0_def)

theorem offset_monotone_witness:
  "is_rounding exact \<and> representable exact (principal example_loan) \<and>
   buildSchedule exact (example_loan\<lparr>offsetBalance := Some 0\<rparr>) = Inr example_result \<and>
   buildSchedule exact (example_loan\<lparr>offsetBalance := Some 500\<rparr>) = Inr example_offset500_result \<and>
   buildSchedule exact (example_loan\<lparr>offsetBalance := Some 800\<rparr>) = Inr example_offset800_result \<and>
   (500 :: real) < 800 \<and> (0 :: real) \<le> 800 \<and> 800 < principal example_loan \<and>
   1 \<le> nPeriods example_result \<and> accurate exact \<and> principal example_loan \<le> 10 ^ 9 \<and>
   periodicRate example_offset800_result \<le> 1 \<and>
   1 < length (schedule example_offset500_result) \<and>
   1 < length (schedule example_offset800_result) \<and>
   \<not> jlt (row_interest (schedule example_offset500_result ! 1))
       (row_interest (schedule example_offset800_result ! 1)) \<and>
   jle (row_interest (schedule example_offset800_result ! 1))
       (row_interest (schedule example_offset500_result ! 1)) \<and>
   jlt (row_interest (schedule example_offset800_result ! 1))
       (row_interest (schedule example_offset500_result ! 1)) \<and>
   jsub exact (row_interest (hd (schedule example_result)))
        (row_interest (hd (schedule example_offset800_result))) = Fin (800 * (1 / 100)) \<and>
   is_rounding round64 \<and> accurate round64 \<and>
   representable round64 (principal example_overflow) \<and>
   buildSchedule round64 (example_overflow\<lparr>offsetBalance := Some 0\<rparr>)
     = Inr (schedule64 (example_overflow\<lparr>offsetBalance := Some 0\<rparr>)) \<and>
   buildSchedule round64 (example_overflow\<lparr>offsetBalance := Some 500\<rparr>)
     = Inr (schedule64 (example_overflow\<lparr>offsetBalance := Some 500\<rparr>)) \<and>
   (0 :: real) < 500 \<and> 500 < principal example_overflow \<and>
   principal example_overflow \<le> 10 ^ 9 \<and>
   1 \<le> nPeriods (schedule64 (example_overflow\<lparr>offsetBalance := Some 0\<rparr>)) \<and>
   periodicRate (schedule64 (example_overflow\<lparr>offsetBalance := Some 500\<rparr>)) \<le> 1 \<and>
   row_interest (hd (schedule (schedule64 (example_overflow\<lparr>offsetBalance := Some 0\<rparr>))))
     = Fin 1000 \<and>
   row_interest (hd (schedule (schedule64 (example_overflow\<lparr>offsetBalance := Some 500\<rparr>))))
     = Fin 500 \<and>
   \<bar>1000 - 500
      - 500 * periodicRate (schedule64 (example_overflow\<lparr>offsetBalance := Some 500\<rparr>))\<bar>
     \<le> 1 / 10 ^ 6"
proof -
  have lt: "(500 :: real) < 800" by simp
  note exact_case =
    offset_monotone [OF is_rounding_exact representable_exact
      example_offset0_run example_offset500_run example_offset800_run lt]
  have part1:
    "\<not> jlt (row_interest (schedule example_offset500_result ! 1))
        (row_interest (schedule example_offset800_result ! 1)) \<and>
     jle (row_interest (schedule example_offset800_result ! 1))
         (row_interest (schedule example_offset500_result ! 1)) \<and>
     jlt (row_interest (schedule example_offset800_result ! 1))
         (row_interest (schedule example_offset500_result ! 1)) \<and>
     jsub exact (row_interest (hd (schedule example_result)))
          (row_interest (hd (schedule example_offset800_result))) = Fin (800 * (1 / 100))"
    using exact_case
    by (simp add: example_result_def example_offset500_result_def
        example_offset800_result_def example_loan_def)
  have rep: "representable round64 (principal (example_overflow))"
    by (simp add: representable_def example_overflow_def)
  have rep': "representable round64 (principal (example_overflow\<lparr>offsetBalance := None\<rparr>))"
    using rep by simp
  have lt': "(0 :: real) < 500" by simp
  have P: "500 < principal example_overflow" "principal example_overflow \<le> 10 ^ 9"
    by (simp_all add: example_overflow_def)
  note run0 = example_overflow_run[of "Some 0"]
  note run5 = example_overflow_run[of "Some 500"]
  note binary64_case =
    offset_monotone [OF is_rounding_round64 rep run0(1) run0(1) run5(1) lt']
  from binary64_case accurate_round64 P run0 run5 example_overflow_first_interest
  have part2: "\<bar>1000 - 500
      - 500 * periodicRate (schedule64 (example_overflow\<lparr>offsetBalance := Some 500\<rparr>))\<bar>
     \<le> 1 / 10 ^ 6"
    by simp
  have facts1: "(500 :: real) < 800 \<and> (0 :: real) \<le> 800 \<and> 800 < principal example_loan \<and>
   1 \<le> nPeriods example_result \<and> principal example_loan \<le> 10 ^ 9 \<and>
   periodicRate example_offset800_result \<le> 1 \<and>
   1 < length (schedule example_offset500_result) \<and>
   1 < length (schedule example_offset800_result)"
    by (simp add: example_result_def example_offset500_result_def
        example_offset800_result_def example_loan_def)
  from part1 part2 facts1 is_rounding_exact representable_exact[of "principal example_loan"]
    example_offset0_run example_offset500_run example_offset800_run accurate_exact
    is_rounding_round64 accurate_round64 rep run0 run5 P example_overflow_first_interest
  show ?thesis by simp
qed

text \<open>
  A principal of \<open>2 ^ 60\<close> at a periodic rate of 1, in binary64: the doubles near
  \<open>2 ^ 60\<close> are 256 apart below it, so that an offset of 1 is lost in the subtraction.
\<close>

lemma round64_large: "round64 (2 ^ 60) = Fin (2 ^ 60)"
  using round64_eval[of 60 "2 ^ 60" "2 ^ 52"] by (simp add: rne_def)

lemma round64_large_absorbed: "round64 (2 ^ 60 - 1) = Fin (2 ^ 60)"
  using round64_eval[of 59 "2 ^ 60 - 1" "2 ^ 53"] by (simp add: rne_def)

lemma example_large_run:
  shows "buildSchedule round64 (example_large\<lparr>offsetBalance := a\<rparr>)
     = Inr (schedule64 (example_large\<lparr>offsetBalance := a\<rparr>))"
  and "periodicRate (schedule64 (example_large\<lparr>offsetBalance := a\<rparr>)) = 1"
  and "nPeriods (schedule64 (example_large\<lparr>offsetBalance := a\<rparr>)) = 12"
proof -
  let ?p = "example_large\<lparr>offsetBalance := a\<rparr>"
  show s: "buildSchedule round64 ?p = Inr (schedule64 ?p)"
    by (rule schedule64_run) (simp add: example_large_def)
  then obtain ppy where ppy: "periodsPerYear (frequency ?p) = Inr ppy"
    and n: "nPeriods (schedule64 ?p) = js_round (clampMin0 (years ?p) * ppy)"
    and r: "periodicRate (schedule64 ?p) = clampMin0 (annualRatePct ?p) / 100 / ppy"
    by (rule buildSchedule_Inr)
  from ppy have "ppy = 12" by (simp add: example_large_def periodsPerYear_def)
  with n r show "periodicRate (schedule64 ?p) = 1" "nPeriods (schedule64 ?p) = 12"
    by (simp_all add: example_large_def clampMin0_def js_round_def)
qed

lemma example_large_first_interest:
  "row_interest (hd (schedule (schedule64 (example_large\<lparr>offsetBalance := Some 0\<rparr>))))
     = Fin (2 ^ 60)"
  "row_interest (hd (schedule (schedule64 (example_large\<lparr>offsetBalance := Some 1\<rparr>))))
     = Fin (2 ^ 60)"
proof -
  have P: "0 < principal example_large" by (simp add: example_large_def)
  have n: "1 \<le> nPeriods (schedule64 (example_large\<lparr>offsetBalance := a\<rparr>))" for a
    by (simp add: example_large_run)
  have e0: "effectivePrincipal round64 (Fin (2 ^ 60)) (Fin 0) = Fin (2 ^ 60)"
    using round64_large by (simp add: effectivePrincipal_def jsub_def)
  have e1: "effectivePrincipal round64 (Fin (2 ^ 60)) (Fin 1) = Fin (2 ^ 60)"
    using round64_large_absorbed by (simp add: effectivePrincipal_def jsub_def)
  have m: "jmul round64 (Fin (2 ^ 60)) (Fin 1) = Fin (2 ^ 60)"
    using round64_large by simp
  have P60: "principal example_large = 2 ^ 60" by (simp add: example_large_def)
  have cl: "clampMin0 0 = 0" "clampMin0 1 = 1" by (simp_all add: clampMin0_def)
  show "row_interest (hd (schedule (schedule64 (example_large\<lparr>offsetBalance := Some 0\<rparr>))))
     = Fin (2 ^ 60)"
    using buildSchedule_first_interest(2)[OF example_large_run(1)[of "Some 0"] P n]
    by (simp only: P60 cl example_large_run e0 m)
  show "row_interest (hd (schedule (schedule64 (example_large\<lparr>offsetBalance := Some 1\<rparr>))))
     = Fin (2 ^ 60)"
    using buildSchedule_first_interest(2)[OF example_large_run(1)[of "Some 1"] P n]
    by (simp only: P60 cl example_large_run e1 m)
qed

text \<open>The first-period interest of the loan of 1200 at a periodic rate of 1/100, in binary64.\<close>

lemma example_loan_first_interest:
  "row_interest (hd (schedule (schedule64 (example_loan\<lparr>offsetBalance := Some 0\<rparr>))))
     = Fin 12"
  "periodicRate (schedule64 (example_loan\<lparr>offsetBalance := Some 0\<rparr>)) = 1 / 100"
proof -
  let ?p = "example_loan\<lparr>offsetBalance := Some 0\<rparr>"
  have s: "buildSchedule round64 ?p = Inr (schedule64 ?p)"
    by (rule schedule64_run) (simp add: example_loan_def)
  then obtain ppy where ppy: "periodsPerYear (frequency ?p) = Inr ppy"
    and n: "nPeriods (schedule64 ?p) = js_round (clampMin0 (years ?p) * ppy)"
    and r: "periodicRate (schedule64 ?p) = clampMin0 (annualRatePct ?p) / 100 / ppy"
    by (rule buildSchedule_Inr)
  from ppy have "ppy = 12" by (simp add: example_loan_def periodsPerYear_def)
  with n r have nr: "periodicRate (schedule64 ?p) = 1 / 100" "nPeriods (schedule64 ?p) = 2"
    by (simp_all add: example_loan_def clampMin0_def js_round_def)
  then show "periodicRate (schedule64 ?p) = 1 / 100" by simp
  have P: "0 < principal example_loan" by (simp add: example_loan_def)
  from nr have n1: "1 \<le> nPeriods (schedule64 ?p)" by simp
  have "jmul round64 (effectivePrincipal round64 (Fin (principal example_loan))
      (Fin (clampMin0 0))) (Fin (1 / 100)) = Fin 12"
    by (simp add: example_loan_def effectivePrincipal_def jsub_def clampMin0_def)
  with buildSchedule_first_interest(2)[OF s P n1, unfolded nr]
  show "row_interest (hd (schedule (schedule64 ?p))) = Fin 12" by simp
qed

text \<open>
  In binary64, with a principal of \<open>2 ^ 60\<close> and a periodic rate of 1, an offset balance
  of 1 leaves the first-period interest at \<open>2 ^ 60\<close>: it is neither lower nor 0, and the
  difference 0 is not the offset times the rate, 1, to within \<open>10 ^ -6\<close>. And a negative
  offset balance is below the principal, yet the builder clamps it to 0: with an offset
  of \<open>-1200\<close> the schedule is that of the zero offset, and the difference 0 of the
  first-period interests is not \<open>-1200\<close> times the rate, \<open>-12\<close>, to within \<open>10 ^ -6\<close>.
\<close>

theorem offset_delta_counterexample:
  "(0 :: real) < 1 \<and> 1 < principal example_large \<and>
   buildSchedule round64 (example_large\<lparr>offsetBalance := Some 0\<rparr>)
     = Inr (schedule64 (example_large\<lparr>offsetBalance := Some 0\<rparr>)) \<and>
   buildSchedule round64 (example_large\<lparr>offsetBalance := Some 1\<rparr>)
     = Inr (schedule64 (example_large\<lparr>offsetBalance := Some 1\<rparr>)) \<and>
   row_interest (hd (schedule (schedule64 (example_large\<lparr>offsetBalance := Some 0\<rparr>))))
     = Fin (2 ^ 60) \<and>
   row_interest (hd (schedule (schedule64 (example_large\<lparr>offsetBalance := Some 1\<rparr>))))
     = Fin (2 ^ 60) \<and>
   \<not> jlt (row_interest (hd (schedule (schedule64 (example_large\<lparr>offsetBalance := Some 1\<rparr>)))))
         (row_interest (hd (schedule (schedule64 (example_large\<lparr>offsetBalance := Some 0\<rparr>))))) \<and>
   row_interest (hd (schedule (schedule64 (example_large\<lparr>offsetBalance := Some 0\<rparr>))))
     \<noteq> Fin 0 \<and>
   jsub round64
     (row_interest (hd (schedule (schedule64 (example_large\<lparr>offsetBalance := Some 0\<rparr>)))))
     (row_interest (hd (schedule (schedule64 (example_large\<lparr>offsetBalance := Some 1\<rparr>)))))
     = Fin 0 \<and>
   1 / 10 ^ 6
     < \<bar>0 - 1 * periodicRate (schedule64 (example_large\<lparr>offsetBalance := Some 1\<rparr>))\<bar> \<and>
   (- 1200 :: real) < principal example_loan \<and>
   buildSchedule round64 (example_loan\<lparr>offsetBalance := Some (- 1200)\<rparr>)
     = buildSchedule round64 (example_loan\<lparr>offsetBalance := Some 0\<rparr>) \<and>
   row_interest (hd (schedule (schedule64 (example_loan\<lparr>offsetBalance := Some 0\<rparr>))))
     = Fin 12 \<and>
   jsub round64
     (row_interest (hd (schedule (schedule64 (example_loan\<lparr>offsetBalance := Some 0\<rparr>)))))
     (row_interest (hd (schedule (schedule64 (example_loan\<lparr>offsetBalance := Some 0\<rparr>)))))
     = Fin 0 \<and>
   1 / 10 ^ 6
     < \<bar>0 - (- 1200) * periodicRate (schedule64 (example_loan\<lparr>offsetBalance := Some 0\<rparr>))\<bar>"
proof -
  have P: "(0 :: real) < 1 \<and> 1 < principal example_large \<and>
    (- 1200 :: real) < principal example_loan"
    by (simp add: example_large_def example_loan_def)
  have same: "buildSchedule round64 (example_loan\<lparr>offsetBalance := Some (- 1200)\<rparr>)
     = buildSchedule round64 (example_loan\<lparr>offsetBalance := Some 0\<rparr>)"
    by (rule buildSchedule_same_clamped_offset) (simp add: clampMin0_def)
  have d1: "jsub round64 (Fin (2 ^ 60)) (Fin (2 ^ 60)) = Fin 0"
    by (simp add: jsub_def round64_zero)
  have d2: "jsub round64 (Fin 12) (Fin 12) = Fin 0"
    by (simp add: jsub_def round64_zero)
  from P same example_large_run(1)[of "Some 0"] example_large_run(1)[of "Some 1"]
  show ?thesis
    by (simp only: example_large_first_interest example_loan_first_interest
          example_large_run d1 d2) simp
qed

section \<open>The rent versus buy comparison: properties\<close>





lemma monthlyMortgagePayment_NaN:
  "js_round (yrs * 12) \<le> 0 \<Longrightarrow> monthlyMortgagePayment rnd princ ratePct yrs = NaN"
  by (simp add: monthlyMortgagePayment_def Let_def)

text \<open>Not-a-number stays through the months of the accumulating loop.\<close>

lemma inflationLoop_NaN:
  "snd (inflationLoop rnd rm0 NaN ri oi months m (a, NaN)) = NaN"
proof (induction rnd rm0 NaN ri oi months m "(a, NaN)" arbitrary: a rule: inflationLoop.induct)
  case (1 rnd rm0 ri oi months m a)
  show ?case
  proof (cases "m < months")
    case True
    with "1.hyps"[OF True refl] show ?thesis
      by (subst inflationLoop.simps) (simp add: Let_def)
  next
    case False
    then show ?thesis by (subst inflationLoop.simps) simp
  qed
qed

text \<open>
  C10. When the term rounds to no month at all and the horizon to at least one month,
  the comparison still returns, and the monthly mortgage payment, the owner's monthly
  cost, both totals of buying and the net cost of buying are all not-a-number.
\<close>

theorem nan_propagates:
  assumes "js_round (termYears p * 12) \<le> 0" and "1 \<le> js_round (horizonYears p * 12)"
  shows "out_mortgageMonthly (rentVsBuy rnd calcSdlt p) = NaN \<and>
         out_ownerMonthly (rentVsBuy rnd calcSdlt p) = NaN \<and>
         out_buyTotalBasic (rentVsBuy rnd calcSdlt p) = NaN \<and>
         out_buyTotal (rentVsBuy rnd calcSdlt p) = NaN \<and>
         out_buyNetCost (rentVsBuy rnd calcSdlt p) = NaN"
proof -
  define months where "months = js_round (horizonYears p * 12)"
  define rm0 where "rm0 = rentMonthly p + rentExtraMonthly p"
  have mortgage: "out_mortgageMonthly (rentVsBuy rnd calcSdlt p) = NaN"
    using assms(1) by (simp add: rentVsBuy_def Let_def monthlyMortgagePayment_NaN)
  have owner: "out_ownerMonthly (rentVsBuy rnd calcSdlt p) = NaN"
    using assms(1) by (simp add: rentVsBuy_def Let_def monthlyMortgagePayment_NaN)
  have basic: "out_buyTotalBasic (rentVsBuy rnd calcSdlt p) = NaN"
    using assms(1) by (simp add: rentVsBuy_def Let_def monthlyMortgagePayment_NaN)
  have "out_buyTotal (rentVsBuy rnd calcSdlt p) =
          snd (inflationLoop rnd rm0 NaN (rentInflationPct p / 100)
                 (ownerCostInflationPct p / 100) months 0 (Fin 0, Fin 0))"
    using assms(1)
    by (simp add: rentVsBuy_def Let_def monthlyMortgagePayment_NaN months_def rm0_def)
  also from assms(2) have "\<dots> = NaN"
    by (subst inflationLoop.simps) (simp add: Let_def months_def inflationLoop_NaN)
  finally have total: "out_buyTotal (rentVsBuy rnd calcSdlt p) = NaN" .
  have "out_buyNetCost (rentVsBuy rnd calcSdlt p) =
          jsub rnd (jadd rnd (out_buyTotal (rentVsBuy rnd calcSdlt p))
                      (out_buyUpfront (rentVsBuy rnd calcSdlt p)))
            (out_equity (rentVsBuy rnd calcSdlt p))"
    by (simp add: rentVsBuy_def Let_def)
  with total have "out_buyNetCost (rentVsBuy rnd calcSdlt p) = NaN" by simp
  with mortgage owner basic total show ?thesis by simp
qed

theorem nan_propagates_witness:
  "js_round (termYears (example_rvb\<lparr>termYears := 0\<rparr>) * 12) \<le> 0 \<and>
   1 \<le> js_round (horizonYears (example_rvb\<lparr>termYears := 0\<rparr>) * 12) \<and>
   out_mortgageMonthly (rentVsBuy exact noSdlt (example_rvb\<lparr>termYears := 0\<rparr>)) = NaN \<and>
   out_ownerMonthly (rentVsBuy exact noSdlt (example_rvb\<lparr>termYears := 0\<rparr>)) = NaN \<and>
   out_buyTotalBasic (rentVsBuy exact noSdlt (example_rvb\<lparr>termYears := 0\<rparr>)) = NaN \<and>
   out_buyTotal (rentVsBuy exact noSdlt (example_rvb\<lparr>termYears := 0\<rparr>)) = NaN \<and>
   out_buyNetCost (rentVsBuy exact noSdlt (example_rvb\<lparr>termYears := 0\<rparr>)) = NaN"
proof -
  have t: "js_round (termYears (example_rvb\<lparr>termYears := 0\<rparr>) * 12) \<le> 0"
    and h: "1 \<le> js_round (horizonYears (example_rvb\<lparr>termYears := 0\<rparr>) * 12)"
    by (simp_all add: example_rvb_def js_round_def)
  from nan_propagates [OF t h, of _ noSdlt] t h show ?thesis by blast
qed

text \<open>The comparison reads the deposit percentage only through the clamped fraction.\<close>

lemma rentVsBuy_depositPct:
  assumes "clamp01 (depositPct q / 100) = clamp01 (d / 100)"
  shows "rentVsBuy rnd calcSdlt q = rentVsBuy rnd calcSdlt (q\<lparr>depositPct := d\<rparr>)"
proof (cases q)
  case (fields a1 a2 a3 a4 a5 a6 a7 a8 a9 a10 a11 a12 a13 a14 a15 a16)
  with assms have "clamp01 (a2 / 100) = clamp01 (d / 100)" by simp
  then show ?thesis
    unfolding fields by (simp only: rentVsBuy_def rvb_params.simps)
qed

text \<open>
  C2, as amended. The schedule builder clamps a negative principal, annual rate, term or
  offset balance to 0: the result is that of the same input with the field replaced by 0.
  The comparison clamps the deposit fraction to the range from 0 to 1, and no other
  input.
\<close>

theorem clamping:
  "(principal p < 0 \<longrightarrow> buildSchedule rnd p = buildSchedule rnd (p\<lparr>principal := 0\<rparr>)) \<and>
   (annualRatePct p < 0 \<longrightarrow> buildSchedule rnd p = buildSchedule rnd (p\<lparr>annualRatePct := 0\<rparr>)) \<and>
   (years p < 0 \<longrightarrow> buildSchedule rnd p = buildSchedule rnd (p\<lparr>years := 0\<rparr>)) \<and>
   (nullish (offsetBalance p) 0 < 0 \<longrightarrow>
      buildSchedule rnd p = buildSchedule rnd (p\<lparr>offsetBalance := Some 0\<rparr>)) \<and>
   (depositPct q < 0 \<longrightarrow> rentVsBuy rnd calcSdlt q = rentVsBuy rnd calcSdlt (q\<lparr>depositPct := 0\<rparr>)) \<and>
   (100 < depositPct q' \<longrightarrow>
      rentVsBuy rnd calcSdlt q' = rentVsBuy rnd calcSdlt (q'\<lparr>depositPct := 100\<rparr>))"
proof (intro conjI impI)
  assume "principal p < 0"
  then have "clampMin0 (principal p) = clampMin0 0" by (simp add: clampMin0_def)
  then show "buildSchedule rnd p = buildSchedule rnd (p\<lparr>principal := 0\<rparr>)"
    by (simp add: buildSchedule_def)
next
  assume "annualRatePct p < 0"
  then have "clampMin0 (annualRatePct p) = clampMin0 0" by (simp add: clampMin0_def)
  then show "buildSchedule rnd p = buildSchedule rnd (p\<lparr>annualRatePct := 0\<rparr>)"
    by (simp add: buildSchedule_def)
next
  assume "years p < 0"
  then have "clampMin0 (years p) = clampMin0 0" by (simp add: clampMin0_def)
  then show "buildSchedule rnd p = buildSchedule rnd (p\<lparr>years := 0\<rparr>)"
    by (simp add: buildSchedule_def)
next
  assume "nullish (offsetBalance p) 0 < 0"
  then have "clampMin0 (nullish (offsetBalance p) 0) = clampMin0 0"
    by (simp add: clampMin0_def)
  then show "buildSchedule rnd p = buildSchedule rnd (p\<lparr>offsetBalance := Some 0\<rparr>)"
    by (simp add: buildSchedule_def)
next
  assume "depositPct q < 0"
  then show "rentVsBuy rnd calcSdlt q = rentVsBuy rnd calcSdlt (q\<lparr>depositPct := 0\<rparr>)"
    by (intro rentVsBuy_depositPct) (simp add: clamp01_def)
next
  assume "100 < depositPct q'"
  then show "rentVsBuy rnd calcSdlt q' = rentVsBuy rnd calcSdlt (q'\<lparr>depositPct := 100\<rparr>)"
    by (intro rentVsBuy_depositPct) (simp add: clamp01_def)
qed

theorem clamping_witness:
  "principal example_negative < 0 \<and>
   buildSchedule exact example_negative = buildSchedule exact (example_negative\<lparr>principal := 0\<rparr>) \<and>
   annualRatePct example_negative < 0 \<and>
   buildSchedule exact example_negative = buildSchedule exact (example_negative\<lparr>annualRatePct := 0\<rparr>) \<and>
   years example_negative < 0 \<and>
   buildSchedule exact example_negative = buildSchedule exact (example_negative\<lparr>years := 0\<rparr>) \<and>
   nullish (offsetBalance example_negative) 0 < 0 \<and>
   buildSchedule exact example_negative = buildSchedule exact (example_negative\<lparr>offsetBalance := Some 0\<rparr>) \<and>
   depositPct (example_rvb\<lparr>depositPct := - 10\<rparr>) < 0 \<and>
   rentVsBuy exact noSdlt (example_rvb\<lparr>depositPct := - 10\<rparr>)
     = rentVsBuy exact noSdlt (example_rvb\<lparr>depositPct := - 10, depositPct := 0\<rparr>) \<and>
   100 < depositPct (example_rvb\<lparr>depositPct := 150\<rparr>) \<and>
   rentVsBuy exact noSdlt (example_rvb\<lparr>depositPct := 150\<rparr>)
     = rentVsBuy exact noSdlt (example_rvb\<lparr>depositPct := 150, depositPct := 100\<rparr>)"
proof -
  have neg: "principal example_negative < 0" "annualRatePct example_negative < 0"
    "years example_negative < 0" "nullish (offsetBalance example_negative) 0 < 0"
    by (simp_all add: example_negative_def)
  have dep: "depositPct (example_rvb\<lparr>depositPct := - 10\<rparr>) < 0"
    "100 < depositPct (example_rvb\<lparr>depositPct := 150\<rparr>)"
    by simp_all
  from clamping [of example_negative exact "example_rvb\<lparr>depositPct := - 10\<rparr>" noSdlt
      "example_rvb\<lparr>depositPct := 150\<rparr>"] neg dep
  show ?thesis by blast
qed

text \<open>
  The comparison does not clamp the rent: a negative monthly rent gives a negative total
  of rent, not the total of a rent of 0.
\<close>

theorem rent_not_clamped_counterexample:
  "rentMonthly (example_rvb\<lparr>rentMonthly := - 1000\<rparr>) < 0 \<and>
   out_rentTotalBasic (rentVsBuy exact noSdlt (example_rvb\<lparr>rentMonthly := - 1000\<rparr>)) = - 11400 \<and>
   out_rentTotalBasic (rentVsBuy exact noSdlt (example_rvb\<lparr>rentMonthly := - 1000, rentMonthly := 0\<rparr>))
     = 600 \<and>
   rentVsBuy exact noSdlt (example_rvb\<lparr>rentMonthly := - 1000\<rparr>)
     \<noteq> rentVsBuy exact noSdlt (example_rvb\<lparr>rentMonthly := - 1000, rentMonthly := 0\<rparr>)"
proof -
  have a: "out_rentTotalBasic (rentVsBuy exact noSdlt (example_rvb\<lparr>rentMonthly := - 1000\<rparr>)) = - 11400"
    by (simp add: rentVsBuy_def example_rvb_def js_round_def Let_def)
  have b: "out_rentTotalBasic
             (rentVsBuy exact noSdlt (example_rvb\<lparr>rentMonthly := - 1000, rentMonthly := 0\<rparr>)) = 600"
    by (simp add: rentVsBuy_def example_rvb_def js_round_def Let_def)
  from a b have "rentVsBuy exact noSdlt (example_rvb\<lparr>rentMonthly := - 1000\<rparr>)
     \<noteq> rentVsBuy exact noSdlt (example_rvb\<lparr>rentMonthly := - 1000, rentMonthly := 0\<rparr>)"
    by (metis numeral_neq_neg_numeral)
  with a b show ?thesis by simp
qed

end
